theory Spec2Isabelle
  imports Main "HOL-Library.Multiset"
begin

section \<open>Data model\<close>

text \<open>
  The CodeSystem \<^verbatim>\<open>$import\<close> operation: \<^verbatim>\<open>importCodeSystem\<close>, \<^verbatim>\<open>processProperties\<close> and
  \<^verbatim>\<open>resolveProperty\<close>.
  Resources and rows are records, the three tables are lists of rows in insertion order,
  a thrown \<^verbatim>\<open>OperationOutcomeError\<close> is a value, and the database handle is passed
  explicitly and returned updated, also when the call throws.
\<close>

text \<open>An entry of \<^verbatim>\<open>CodeSystem.property\<close>: \<^verbatim>\<open>{code, uri?, description?, type}\<close>.\<close>

record CodeSystemProperty =
  pd_code :: string
  pd_uri :: "string option"
  pd_description :: "string option"
  pd_type :: string

text \<open>The fields of the \<^verbatim>\<open>CodeSystem\<close> resource that the import reads.\<close>

record CodeSystem =
  cs_id :: string
  cs_url :: string
  hierarchyMeaning :: "string option"
  property :: "CodeSystemProperty list option"

text \<open>An incoming concept (a FHIR \<^verbatim>\<open>Coding\<close>): \<^verbatim>\<open>{code, display?}\<close>.\<close>

record Coding =
  c_code :: string
  c_display :: "string option"

text \<open>\<^verbatim>\<open>type ImportedProperty = { code: string; property: string; value: string }\<close>\<close>

record ImportedProperty =
  ip_code :: string
  ip_property :: string
  ip_value :: string

text \<open>Rows of the tables \<^verbatim>\<open>Coding\<close>, \<^verbatim>\<open>CodeSystem_Property\<close> and \<^verbatim>\<open>Coding_Property\<close>.\<close>

record CodingRow =
  cr_id :: nat
  cr_system :: string
  cr_code :: string
  cr_display :: "string option"

record PropertyRow =
  pr_id :: nat
  pr_system :: string
  pr_code :: string
  pr_type :: string
  pr_uri :: "string option"
  pr_description :: "string option"

record CodingPropertyRow =
  cp_coding :: nat
  cp_property :: nat
  cp_value :: string
  cp_target :: "nat option"

record tables =
  Coding_tbl :: "CodingRow list"
  CodeSystem_Property_tbl :: "PropertyRow list"
  Coding_Property_tbl :: "CodingPropertyRow list"

text \<open>
  Modelled from the spec: the database handle returned by \<^verbatim>\<open>getClient()\<close> is not part of
  the sources. The spec (4.6, 5) has one connection with at most one transaction: the
  handle holds the committed tables and, while a transaction is open, the tables as the
  transaction sees them.
\<close>

record db =
  committed :: tables
  txn :: "tables option"

text \<open>\<^verbatim>\<open>new OperationOutcomeError(badRequest(msg))\<close>\<close>

datatype outcome_error = BadRequest string

datatype 'a result = Ok 'a | Throw outcome_error

section \<open>The database handle and the SQL builder\<close>

text \<open>
  Modelled from the spec: the tables a statement on the handle reads, those of the open
  transaction when there is one (4.5: "the current transaction's view").
\<close>

definition view :: "db \<Rightarrow> tables" where
  "view d = (case txn d of Some w \<Rightarrow> w | None \<Rightarrow> committed d)"

text \<open>
  Modelled from the spec: a writing statement changes the open transaction's tables, or
  the committed ones when no transaction is open.
\<close>

definition exec_write :: "(tables \<Rightarrow> tables) \<Rightarrow> db \<Rightarrow> db" where
  "exec_write f d =
     (case txn d of
        Some w \<Rightarrow> d\<lparr>txn := Some (f w)\<rparr>
      | None \<Rightarrow> d\<lparr>committed := f (committed d)\<rparr>)"

text \<open>
  Modelled from the spec: \<^verbatim>\<open>db.query('BEGIN')\<close> opens a transaction on the connection;
  when one is already open it stays as it is.
\<close>

definition query_BEGIN :: "db \<Rightarrow> db" where
  "query_BEGIN d = (case txn d of Some w \<Rightarrow> d | None \<Rightarrow> d\<lparr>txn := Some (committed d)\<rparr>)"

text \<open>
  Modelled from the spec: \<^verbatim>\<open>db.query('COMMIT')\<close> makes the rows of the open transaction
  the committed ones and closes it.
\<close>

definition query_COMMIT :: "db \<Rightarrow> db" where
  "query_COMMIT d = (case txn d of Some w \<Rightarrow> \<lparr>committed = w, txn = None\<rparr> | None \<Rightarrow> d)"

text \<open>\<^verbatim>\<open>rows[0]?.id\<close>: the first element of a result set, if any.\<close>

fun first_row :: "'a list \<Rightarrow> 'a option" where
  "first_row [] = None"
| "first_row (x # xs) = Some x"

text \<open>JavaScript truthiness of an optional number: \<^verbatim>\<open>undefined\<close> and \<^verbatim>\<open>0\<close> are falsy.\<close>

fun truthy_id :: "nat option \<Rightarrow> bool" where
  "truthy_id None = False"
| "truthy_id (Some n) = (n \<noteq> 0)"

text \<open>JavaScript truthiness of an optional string: \<^verbatim>\<open>undefined\<close> and \<^verbatim>\<open>''\<close> are falsy.\<close>

fun truthy_str :: "string option \<Rightarrow> bool" where
  "truthy_str None = False"
| "truthy_str (Some s) = (s \<noteq> [])"

text \<open>
  Modelled from the spec: the id the server assigns to an inserted row (3: "internal id
  (server-assigned)"): a positive number no row of the table has.
\<close>

definition fresh_id :: "nat list \<Rightarrow> nat" where
  "fresh_id ids = Suc (fold max ids 0)"

text \<open>
  Modelled from the spec: \<^verbatim>\<open>SelectQuery\<close> and \<^verbatim>\<open>InsertQuery\<close> (\<^verbatim>\<open>../sql\<close>) are not part of
  the sources. A select with two \<^verbatim>\<open>where\<close> clauses returns the matching rows in table
  order.
\<close>

definition coding_matches :: "string \<Rightarrow> string \<Rightarrow> CodingRow \<Rightarrow> bool" where
  "coding_matches s c r = (cr_system r = s \<and> cr_code r = c)"

definition select_Coding_id :: "string \<Rightarrow> string \<Rightarrow> db \<Rightarrow> nat list" where
  "select_Coding_id s c d = map cr_id (filter (coding_matches s c) (Coding_tbl (view d)))"

text \<open>
  Modelled from the spec: the same select on \<^verbatim>\<open>CodeSystem_Property\<close>, as \<^verbatim>\<open>resolveProperty\<close>
  builds it.
\<close>

definition property_matches :: "string \<Rightarrow> string \<Rightarrow> PropertyRow \<Rightarrow> bool" where
  "property_matches s c r = (pr_system r = s \<and> pr_code r = c)"

definition select_CodeSystem_Property_id :: "string \<Rightarrow> string \<Rightarrow> db \<Rightarrow> nat list" where
  "select_CodeSystem_Property_id s c d =
     map pr_id (filter (property_matches s c) (CodeSystem_Property_tbl (view d)))"

text \<open>
  Modelled from the spec (4.1): \<^verbatim>\<open>mergeOnConflict(['system', 'code'])\<close>, "insert row; if a
  row already exists matching the given key columns, update the non-key columns to the
  new values".
\<close>

definition merge_Coding :: "string \<Rightarrow> string \<Rightarrow> string option \<Rightarrow> CodingRow list \<Rightarrow> CodingRow list" where
  "merge_Coding s c disp rows =
     (if list_ex (coding_matches s c) rows
      then map (\<lambda>r. if coding_matches s c r then r\<lparr>cr_display := disp\<rparr> else r) rows
      else rows @ [\<lparr>cr_id = fresh_id (map cr_id rows), cr_system = s, cr_code = c,
                    cr_display = disp\<rparr>])"

text \<open>
  Modelled from the spec: \<^verbatim>\<open>new InsertQuery('Coding', [row]).mergeOnConflict(...).execute(db)\<close>.
\<close>

definition insert_Coding_merge :: "string \<Rightarrow> string \<Rightarrow> string option \<Rightarrow> db \<Rightarrow> db" where
  "insert_Coding_merge s c disp d =
     exec_write (\<lambda>t. t\<lparr>Coding_tbl := merge_Coding s c disp (Coding_tbl t)\<rparr>) d"

text \<open>
  Modelled from the spec (4.1, 3): \<^verbatim>\<open>ignoreOnConflict()\<close>, "insert row; if any unique
  constraint is violated, discard silently", with \<^verbatim>\<open>(coding, property, value)\<close> the unique
  key of \<^verbatim>\<open>Coding_Property\<close>.
\<close>

definition same_key :: "CodingPropertyRow \<Rightarrow> CodingPropertyRow \<Rightarrow> bool" where
  "same_key a b = (cp_coding a = cp_coding b \<and> cp_property a = cp_property b \<and> cp_value a = cp_value b)"

definition ignore_Coding_Property :: "CodingPropertyRow \<Rightarrow> CodingPropertyRow list \<Rightarrow> CodingPropertyRow list" where
  "ignore_Coding_Property row rows = (if list_ex (same_key row) rows then rows else rows @ [row])"

text \<open>
  Modelled from the spec:
  \<^verbatim>\<open>new InsertQuery('Coding_Property', [property]).ignoreOnConflict().execute(db)\<close>.
\<close>

definition insert_Coding_Property_ignore :: "CodingPropertyRow \<Rightarrow> db \<Rightarrow> db" where
  "insert_Coding_Property_ignore row d =
     exec_write (\<lambda>t. t\<lparr>Coding_Property_tbl := ignore_Coding_Property row (Coding_Property_tbl t)\<rparr>) d"

text \<open>
  Modelled from the spec (4.1): an insert with \<^verbatim>\<open>returnColumn('id')\<close> appends the row under a
  server-assigned id and returns that id.
\<close>

definition insert_CodeSystem_Property ::
  "string \<Rightarrow> string \<Rightarrow> string \<Rightarrow> string option \<Rightarrow> string option \<Rightarrow> db \<Rightarrow> nat \<times> db" where
  "insert_CodeSystem_Property s c ty uri descr d =
     (let newid = fresh_id (map pr_id (CodeSystem_Property_tbl (view d)))
      in (newid,
          exec_write (\<lambda>t. t\<lparr>CodeSystem_Property_tbl := CodeSystem_Property_tbl t @
             [\<lparr>pr_id = newid, pr_system = s, pr_code = c, pr_type = ty, pr_uri = uri,
               pr_description = descr\<rparr>]\<rparr>) d))"

section \<open>The property resolver\<close>

definition parentProperty :: string where
  "parentProperty = ''http://hl7.org/fhir/concept-properties#parent''"

text \<open>\<^verbatim>\<open>codeSystem.property?.find((p) => p.code === code)\<close>\<close>

definition declared_property :: "CodeSystem \<Rightarrow> string \<Rightarrow> CodeSystemProperty option" where
  "declared_property cs code =
     (case property cs of None \<Rightarrow> None | Some ps \<Rightarrow> find (\<lambda>p. pd_code p = code) ps)"

text \<open>
  The first half of \<^verbatim>\<open>resolveProperty\<close>: the declared property with the code, else the
  implicit parent property, else nothing (the caller throws).
\<close>

definition find_property :: "CodeSystem \<Rightarrow> string \<Rightarrow> CodeSystemProperty option" where
  "find_property cs code =
     (case declared_property cs code of
        Some p \<Rightarrow> Some p
      | None \<Rightarrow>
          if Some code = hierarchyMeaning cs \<or> (code = ''parent'' \<and> \<not> truthy_str (hierarchyMeaning cs))
          then Some \<lparr>pd_code = code, pd_uri = Some parentProperty, pd_description = None,
                     pd_type = ''code''\<rparr>
          else None)"

definition resolveProperty :: "CodeSystem \<Rightarrow> string \<Rightarrow> db \<Rightarrow> (nat \<times> bool) result \<times> db" where
  "resolveProperty cs code d =
     (case find_property cs code of
        None \<Rightarrow> (Throw (BadRequest (''Unknown property: '' @ code)), d)
      | Some prop \<Rightarrow>
          (let isRelationship = (pd_type prop = ''code'') in
           case first_row (select_CodeSystem_Property_id (cs_id cs) code d) of
             Some knownProp \<Rightarrow> (Ok (knownProp, isRelationship), d)
           | None \<Rightarrow>
               (let (newProp, d') = insert_CodeSystem_Property (cs_id cs) code (pd_type prop)
                                      (pd_uri prop) (pd_description prop) d
                in (Ok (newProp, isRelationship), d'))))"

section \<open>The property writer\<close>

text \<open>
  \<^verbatim>\<open>const cache: Record<string, { id: number; isRelationship: boolean }> = Object.create(null)\<close>:
  an object without prototype, so its only keys are the ones stored.
\<close>

type_synonym cache = "string \<rightharpoonup> nat \<times> bool"

text \<open>
  The cached resolution of one property code: \<^verbatim>\<open>cache[cacheKey] ?? {}\<close>, then
  \<^verbatim>\<open>resolveProperty\<close> and a store when the cached id is missing.
\<close>

definition cached_resolve ::
  "CodeSystem \<Rightarrow> string \<Rightarrow> cache \<Rightarrow> db \<Rightarrow> ((nat \<times> bool) \<times> cache) result \<times> db" where
  "cached_resolve cs propertyCode cache d =
     (let cacheKey = cs_url cs @ ''|'' @ propertyCode in
      case (case cache cacheKey of
              Some (propId, isRelationship) \<Rightarrow>
                if propId \<noteq> 0 then Some (propId, isRelationship) else None
            | None \<Rightarrow> None) of
        Some hit \<Rightarrow> (Ok (hit, cache), d)
      | None \<Rightarrow>
          (case resolveProperty cs propertyCode d of
             (Throw e, d') \<Rightarrow> (Throw e, d')
           | (Ok resolved, d') \<Rightarrow> (Ok (resolved, cache(cacheKey \<mapsto> resolved)), d')))"

text \<open>The body of the loop of \<^verbatim>\<open>processProperties\<close> for one imported property.\<close>

definition processProperty ::
  "CodeSystem \<Rightarrow> ImportedProperty \<Rightarrow> cache \<Rightarrow> db \<Rightarrow> cache result \<times> db" where
  "processProperty cs imported cache d =
     (let codingId = first_row (select_Coding_id (cs_id cs) (ip_code imported) d) in
      if \<not> truthy_id codingId
      then (Throw (BadRequest (''Unknown code: '' @ cs_url cs @ ''|'' @ ip_code imported)), d)
      else
        case cached_resolve cs (ip_property imported) cache d of
          (Throw e, d') \<Rightarrow> (Throw e, d')
        | (Ok ((propId, isRelationship), cache'), d') \<Rightarrow>
            (let targetId =
                   (if isRelationship
                    then first_row (select_Coding_id (cs_id cs) (ip_value imported) d')
                    else None);
                 row = \<lparr>cp_coding = the codingId, cp_property = propId,
                        cp_value = ip_value imported,
                        cp_target = (if truthy_id targetId then targetId else None)\<rparr>
             in (Ok cache', insert_Coding_Property_ignore row d')))"

fun processProperties_loop ::
  "CodeSystem \<Rightarrow> ImportedProperty list \<Rightarrow> cache \<Rightarrow> db \<Rightarrow> unit result \<times> db" where
  "processProperties_loop cs [] cache d = (Ok (), d)"
| "processProperties_loop cs (imported # rest) cache d =
     (case processProperty cs imported cache d of
        (Throw e, d') \<Rightarrow> (Throw e, d')
      | (Ok cache', d') \<Rightarrow> processProperties_loop cs rest cache' d')"

definition processProperties :: "ImportedProperty list \<Rightarrow> CodeSystem \<Rightarrow> db \<Rightarrow> unit result \<times> db" where
  "processProperties importedProperties cs d = processProperties_loop cs importedProperties Map.empty d"

section \<open>The import\<close>

text \<open>The concept loop of \<^verbatim>\<open>importCodeSystem\<close>: one merging insert per concept, in order.\<close>

definition importConcepts :: "CodeSystem \<Rightarrow> Coding list \<Rightarrow> db \<Rightarrow> db" where
  "importConcepts cs concepts d =
     fold (\<lambda>concept. insert_Coding_merge (cs_id cs) (c_code concept) (c_display concept)) concepts d"

text \<open>
  \<^verbatim>\<open>importCodeSystem\<close>: BEGIN, the concepts when \<^verbatim>\<open>concepts?.length\<close>, the properties when
  \<^verbatim>\<open>properties?.length\<close>, COMMIT. A throw of \<^verbatim>\<open>processProperties\<close> leaves the function
  at once: no statement follows it.
\<close>

definition importCodeSystem ::
  "CodeSystem \<Rightarrow> Coding list option \<Rightarrow> ImportedProperty list option \<Rightarrow> db \<Rightarrow> unit result \<times> db" where
  "importCodeSystem cs concepts properties d =
     (let d1 = query_BEGIN d;
          d2 = (case concepts of
                  Some (c # rest) \<Rightarrow> importConcepts cs (c # rest) d1
                | _ \<Rightarrow> d1)
      in case (case properties of
                 Some (p # rest) \<Rightarrow> processProperties (p # rest) cs d2
               | _ \<Rightarrow> (Ok (), d2)) of
           (Throw e, d3) \<Rightarrow> (Throw e, d3)
         | (Ok u, d3) \<Rightarrow> (Ok (), query_COMMIT d3))"

section \<open>The writers without the handle and without the cache\<close>

text \<open>
  The same loop body with every property code resolved by \<^verbatim>\<open>resolveProperty\<close>, and the
  effect of each writer on the tables the handle sees. They are shown below to agree with
  the functions above, and the properties of the import are proved on them.
\<close>

definition processProperty_direct ::
  "CodeSystem \<Rightarrow> ImportedProperty \<Rightarrow> db \<Rightarrow> unit result \<times> db" where
  "processProperty_direct cs imported d =
     (let codingId = first_row (select_Coding_id (cs_id cs) (ip_code imported) d) in
      if \<not> truthy_id codingId
      then (Throw (BadRequest (''Unknown code: '' @ cs_url cs @ ''|'' @ ip_code imported)), d)
      else
        case resolveProperty cs (ip_property imported) d of
          (Throw e, d') \<Rightarrow> (Throw e, d')
        | (Ok (propId, isRelationship), d') \<Rightarrow>
            (let targetId =
                   (if isRelationship
                    then first_row (select_Coding_id (cs_id cs) (ip_value imported) d')
                    else None);
                 row = \<lparr>cp_coding = the codingId, cp_property = propId,
                        cp_value = ip_value imported,
                        cp_target = (if truthy_id targetId then targetId else None)\<rparr>
             in (Ok (), insert_Coding_Property_ignore row d')))"

fun processProperties_direct ::
  "CodeSystem \<Rightarrow> ImportedProperty list \<Rightarrow> db \<Rightarrow> unit result \<times> db" where
  "processProperties_direct cs [] d = (Ok (), d)"
| "processProperties_direct cs (imported # rest) d =
     (case processProperty_direct cs imported d of
        (Throw e, d') \<Rightarrow> (Throw e, d')
      | (Ok u, d') \<Rightarrow> processProperties_direct cs rest d')"

definition lookup_Coding :: "string \<Rightarrow> string \<Rightarrow> tables \<Rightarrow> nat option" where
  "lookup_Coding s c t = first_row (map cr_id (filter (coding_matches s c) (Coding_tbl t)))"

definition lookup_Property :: "string \<Rightarrow> string \<Rightarrow> tables \<Rightarrow> nat option" where
  "lookup_Property s c t =
     first_row (map pr_id (filter (property_matches s c) (CodeSystem_Property_tbl t)))"

definition put_view :: "tables \<Rightarrow> db \<Rightarrow> db" where
  "put_view t d = exec_write (\<lambda>_. t) d"

definition tbl_resolve :: "CodeSystem \<Rightarrow> string \<Rightarrow> tables \<Rightarrow> (nat \<times> bool) result \<times> tables" where
  "tbl_resolve cs k t =
     (case find_property cs k of
        None \<Rightarrow> (Throw (BadRequest (''Unknown property: '' @ k)), t)
      | Some p \<Rightarrow>
          (case lookup_Property (cs_id cs) k t of
             Some i \<Rightarrow> (Ok (i, pd_type p = ''code''), t)
           | None \<Rightarrow>
               (Ok (fresh_id (map pr_id (CodeSystem_Property_tbl t)), pd_type p = ''code''),
                t\<lparr>CodeSystem_Property_tbl := CodeSystem_Property_tbl t @
                   [\<lparr>pr_id = fresh_id (map pr_id (CodeSystem_Property_tbl t)),
                     pr_system = cs_id cs, pr_code = k, pr_type = pd_type p,
                     pr_uri = pd_uri p, pr_description = pd_description p\<rparr>]\<rparr>)))"

definition property_row :: "CodeSystem \<Rightarrow> ImportedProperty \<Rightarrow> nat \<Rightarrow> nat \<Rightarrow> bool \<Rightarrow> tables \<Rightarrow> CodingPropertyRow" where
  "property_row cs e cid pid rel t =
     \<lparr>cp_coding = cid, cp_property = pid,
      cp_value = ip_value e,
      cp_target = (if rel \<and> truthy_id (lookup_Coding (cs_id cs) (ip_value e) t)
                   then lookup_Coding (cs_id cs) (ip_value e) t else None)\<rparr>"

definition tbl_property :: "CodeSystem \<Rightarrow> ImportedProperty \<Rightarrow> tables \<Rightarrow> unit result \<times> tables" where
  "tbl_property cs e t =
     (if \<not> truthy_id (lookup_Coding (cs_id cs) (ip_code e) t)
      then (Throw (BadRequest (''Unknown code: '' @ cs_url cs @ ''|'' @ ip_code e)), t)
      else
        case tbl_resolve cs (ip_property e) t of
          (Throw err, t') \<Rightarrow> (Throw err, t')
        | (Ok (pid, rel), t') \<Rightarrow>
            (Ok (), t'\<lparr>Coding_Property_tbl :=
                       ignore_Coding_Property
                         (property_row cs e (the (lookup_Coding (cs_id cs) (ip_code e) t)) pid rel t')
                         (Coding_Property_tbl t')\<rparr>))"

fun tbl_properties :: "CodeSystem \<Rightarrow> ImportedProperty list \<Rightarrow> tables \<Rightarrow> unit result \<times> tables" where
  "tbl_properties cs [] t = (Ok (), t)"
| "tbl_properties cs (e # rest) t =
     (case tbl_property cs e t of
        (Throw err, t') \<Rightarrow> (Throw err, t')
      | (Ok u, t') \<Rightarrow> tbl_properties cs rest t')"

definition tbl_concepts :: "CodeSystem \<Rightarrow> Coding list \<Rightarrow> tables \<Rightarrow> tables" where
  "tbl_concepts cs concepts t =
     t\<lparr>Coding_tbl := fold (\<lambda>c. merge_Coding (cs_id cs) (c_code c) (c_display c)) concepts (Coding_tbl t)\<rparr>"

definition tbl_import ::
  "CodeSystem \<Rightarrow> Coding list option \<Rightarrow> ImportedProperty list option \<Rightarrow> tables \<Rightarrow> unit result \<times> tables" where
  "tbl_import cs concepts properties t =
     tbl_properties cs (case properties of None \<Rightarrow> [] | Some ps \<Rightarrow> ps)
       (tbl_concepts cs (case concepts of None \<Rightarrow> [] | Some cs' \<Rightarrow> cs') t)"

definition cache_ok :: "CodeSystem \<Rightarrow> cache \<Rightarrow> tables \<Rightarrow> bool" where
  "cache_ok cs cache t =
     (\<forall>k i b. cache (cs_url cs @ ''|'' @ k) = Some (i, b) \<longrightarrow> i \<noteq> 0 \<longrightarrow>
        lookup_Property (cs_id cs) k t = Some i \<and>
        (\<exists>p. find_property cs k = Some p \<and> b = (pd_type p = ''code'')))"

definition extends :: "tables \<Rightarrow> tables \<Rightarrow> bool" where
  "extends t t' =
     (Coding_tbl t' = Coding_tbl t \<and>
      (\<exists>xs. CodeSystem_Property_tbl t' = CodeSystem_Property_tbl t @ xs) \<and>
      (\<exists>ys. Coding_Property_tbl t' = Coding_Property_tbl t @ ys))"

section \<open>Sample resources and batches\<close>

definition ex_cs :: CodeSystem where
  "ex_cs = \<lparr>cs_id = ''cs1'', cs_url = ''http://ex/cs'', hierarchyMeaning = None, property = None\<rparr>"

definition ex_cs_isa :: CodeSystem where
  "ex_cs_isa = \<lparr>cs_id = ''cs1'', cs_url = ''http://ex/cs'', hierarchyMeaning = Some ''isa'',
                 property = None\<rparr>"

definition no_tables :: tables where
  "no_tables = \<lparr>Coding_tbl = [], CodeSystem_Property_tbl = [], Coding_Property_tbl = []\<rparr>"

definition idle_db :: "tables \<Rightarrow> db" where
  "idle_db t = \<lparr>committed = t, txn = None\<rparr>"

definition concept :: "string \<Rightarrow> Coding" where
  "concept c = \<lparr>c_code = c, c_display = None\<rparr>"

definition imported :: "string \<Rightarrow> string \<Rightarrow> string \<Rightarrow> ImportedProperty" where
  "imported c p v = \<lparr>ip_code = c, ip_property = p, ip_value = v\<rparr>"

definition row_A :: CodingRow where
  "row_A = \<lparr>cr_id = 1, cr_system = ''cs1'', cr_code = ''A'', cr_display = None\<rparr>"

definition row_B :: CodingRow where
  "row_B = \<lparr>cr_id = 2, cr_system = ''cs1'', cr_code = ''B'', cr_display = None\<rparr>"

text \<open>The rows of the Coding table without their server-assigned ids and their order.\<close>

definition coding_content :: "CodingRow list \<Rightarrow> (string \<times> string \<times> string option) set" where
  "coding_content rows = (\<lambda>r. (cr_system r, cr_code r, cr_display r)) ` set rows"

definition concept_named :: "string \<Rightarrow> string \<Rightarrow> Coding" where
  "concept_named c disp = \<lparr>c_code = c, c_display = Some disp\<rparr>"

text \<open>A CodeSystem that declares properties whose codes are member names of JavaScript objects.\<close>

definition ex_cs_crafted :: CodeSystem where
  "ex_cs_crafted =
     \<lparr>cs_id = ''cs1'', cs_url = ''http://ex/cs'', hierarchyMeaning = None,
      property = Some
        [\<lparr>pd_code = ''__proto__'', pd_uri = None, pd_description = None, pd_type = ''string''\<rparr>,
         \<lparr>pd_code = ''constructor'', pd_uri = None, pd_description = None, pd_type = ''code''\<rparr>]\<rparr>"

text \<open>The rows of \<^verbatim>\<open>CodeSystem_Property\<close> for a \<^verbatim>\<open>(system, code)\<close> pair.\<close>

definition property_rows :: "string \<Rightarrow> string \<Rightarrow> tables \<Rightarrow> PropertyRow list" where
  "property_rows s c t = filter (property_matches s c) (CodeSystem_Property_tbl t)"

text \<open>\<^verbatim>\<open>isRelationship\<close> as \<^verbatim>\<open>resolveProperty\<close> computes it from the CodeSystem.\<close>

definition relationship :: "CodeSystem \<Rightarrow> string \<Rightarrow> bool" where
  "relationship cs k = (case find_property cs k of Some p \<Rightarrow> pd_type p = ''code'' | None \<Rightarrow> False)"

text \<open>
  The Coding_Property row of an imported property, built from the tables: its coding is the
  id selected for the property's code, its property the id selected for the property code.
\<close>

definition imported_row :: "CodeSystem \<Rightarrow> ImportedProperty \<Rightarrow> tables \<Rightarrow> CodingPropertyRow" where
  "imported_row cs e t =
     property_row cs e (the (lookup_Coding (cs_id cs) (ip_code e) t))
       (the (lookup_Property (cs_id cs) (ip_property e) t)) (relationship cs (ip_property e)) t"

text \<open>
  The wording of the spec (4.5): "the target concept appears earlier in the batch", read as
  the target's code occurring among the concepts before the concept that owns the property.
\<close>

definition appears_earlier :: "string \<Rightarrow> string \<Rightarrow> Coding list \<Rightarrow> bool" where
  "appears_earlier target owner concepts =
     (target \<in> c_code ` set (takeWhile (\<lambda>c. c_code c \<noteq> owner) concepts))"

text \<open>
  The handle after importing concept B with the parent relationship to a concept A that
  does not exist yet (scenario S2 of the spec): the row is written without target.
\<close>

definition stale_db :: db where
  "stale_db = snd (importCodeSystem ex_cs (Some [concept ''B''])
                     (Some [imported ''B'' ''parent'' ''A'']) (idle_db no_tables))"

text \<open>
  The handle inside \<^verbatim>\<open>importCodeSystem\<close> when the concept loop is done and
  \<^verbatim>\<open>processProperties\<close> is about to start.
\<close>

definition concepts_written :: "CodeSystem \<Rightarrow> Coding list option \<Rightarrow> db \<Rightarrow> db" where
  "concepts_written cs concepts d =
     (case concepts of
        Some (c # rest) \<Rightarrow> importConcepts cs (c # rest) (query_BEGIN d)
      | _ \<Rightarrow> query_BEGIN d)"

text \<open>
  The rows of the Coding table without their server-assigned ids and without their order,
  each row as often as it occurs.
\<close>

definition coding_triples :: "CodingRow list \<Rightarrow> (string \<times> string \<times> string option) multiset" where
  "coding_triples rows = mset (map (\<lambda>r. (cr_system r, cr_code r, cr_display r)) rows)"

text \<open>The display of the last concept of a batch that has the code.\<close>

definition last_display :: "Coding list \<Rightarrow> string \<Rightarrow> string option" where
  "last_display concepts code = c_display (last (filter (\<lambda>c. c_code c = code) concepts))"

text \<open>The merging insert on the rows without ids and order.\<close>

definition merge_triples ::
  "string \<Rightarrow> string \<Rightarrow> string option \<Rightarrow> (string \<times> string \<times> string option) multiset \<Rightarrow>
   (string \<times> string \<times> string option) multiset" where
  "merge_triples s c disp M =
     (if (s, c) \<in> (\<lambda>x. (fst x, fst (snd x))) ` set_mset M
      then image_mset (\<lambda>x. if fst x = s \<and> fst (snd x) = c then (s, c, disp) else x) M
      else add_mset (s, c, disp) M)"

text \<open>
  The handle a failed import leaves: concept A is written, the property of the unknown code
  X throws, and the transaction stays open.
\<close>

definition pending_db :: db where
  "pending_db = snd (importCodeSystem ex_cs (Some [concept ''A''])
                       (Some [imported ''X'' ''parent'' ''A'']) (idle_db no_tables))"

section \<open>Basic facts about the handle\<close>

lemma view_exec_write: "view (exec_write f d) = f (view d)"
  by (simp add: view_def exec_write_def split: option.splits)

lemma exec_write_fixed: "f (view d) = view d \<Longrightarrow> exec_write f d = d"
  by (simp add: view_def exec_write_def split: option.splits)

lemma txn_exec_write: "(txn (exec_write f d) = None) = (txn d = None)"
  by (simp add: exec_write_def split: option.splits)

lemma committed_exec_write: "txn d \<noteq> None \<Longrightarrow> committed (exec_write f d) = committed d"
  by (auto simp add: exec_write_def split: option.splits)

lemma view_query_BEGIN: "view (query_BEGIN d) = view d"
  by (simp add: view_def query_BEGIN_def split: option.splits)

lemma txn_query_BEGIN: "txn (query_BEGIN d) \<noteq> None"
  by (simp add: query_BEGIN_def split: option.splits)

lemma committed_query_BEGIN: "committed (query_BEGIN d) = committed d"
  by (simp add: query_BEGIN_def split: option.splits)

section \<open>The writers on the tables\<close>

lemma view_put_view: "view (put_view t d) = t"
  by (simp add: put_view_def view_exec_write)

lemma put_view_view: "put_view (view d) d = d"
  by (simp add: put_view_def exec_write_fixed)

lemma put_view_put_view: "put_view t' (put_view t d) = put_view t' d"
  by (simp add: put_view_def exec_write_def split: option.splits)

lemma exec_write_put_view: "exec_write f d = put_view (f (view d)) d"
  by (simp add: put_view_def exec_write_def view_def split: option.splits)

lemma select_Coding_id_view: "first_row (select_Coding_id s c d) = lookup_Coding s c (view d)"
  by (simp add: select_Coding_id_def lookup_Coding_def)

lemma select_Property_id_view:
  "first_row (select_CodeSystem_Property_id s c d) = lookup_Property s c (view d)"
  by (simp add: select_CodeSystem_Property_id_def lookup_Property_def)

lemma resolveProperty_tbl:
  "resolveProperty cs k d = (case tbl_resolve cs k (view d) of (r, t') \<Rightarrow> (r, put_view t' d))"
  by (simp add: resolveProperty_def tbl_resolve_def select_Property_id_view
      insert_CodeSystem_Property_def Let_def exec_write_put_view put_view_view
      split: option.splits)

lemma processProperty_direct_tbl:
  "processProperty_direct cs e d =
     (case tbl_property cs e (view d) of (r, t') \<Rightarrow> (r, put_view t' d))"
  by (simp add: processProperty_direct_def tbl_property_def select_Coding_id_view
      resolveProperty_tbl Let_def insert_Coding_Property_ignore_def exec_write_put_view
      put_view_view view_put_view put_view_put_view property_row_def
      split: prod.splits result.splits)

lemma processProperties_direct_tbl:
  "processProperties_direct cs ps d =
     (case tbl_properties cs ps (view d) of (r, t') \<Rightarrow> (r, put_view t' d))"
proof (induction ps arbitrary: d)
  case Nil
  show ?case by (simp add: put_view_view)
next
  case (Cons e ps)
  show ?case
    by (simp add: processProperty_direct_tbl Cons.IH view_put_view put_view_put_view
        split: prod.splits result.splits)
qed

lemma importConcepts_tbl: "importConcepts cs concepts d = put_view (tbl_concepts cs concepts (view d)) d"
proof (induction concepts arbitrary: d)
  case Nil
  show ?case by (simp add: importConcepts_def tbl_concepts_def put_view_view)
next
  case (Cons c concepts)
  have "importConcepts cs (c # concepts) d =
        importConcepts cs concepts (insert_Coding_merge (cs_id cs) (c_code c) (c_display c) d)"
    by (simp add: importConcepts_def)
  then show ?case
    by (simp add: Cons.IH insert_Coding_merge_def exec_write_put_view view_put_view
        put_view_put_view tbl_concepts_def)
qed

lemma first_row_append:
  "first_row (xs @ ys) = (case first_row xs of Some x \<Rightarrow> Some x | None \<Rightarrow> first_row ys)"
  by (cases xs) simp_all

lemma first_row_None: "(first_row xs = None) = (xs = [])"
  by (cases xs) simp_all

lemma extends_refl: "extends t t"
  by (simp add: extends_def)

lemma extends_trans: "extends t t' \<Longrightarrow> extends t' t'' \<Longrightarrow> extends t t''"
  by (auto simp add: extends_def)

lemma lookup_Coding_extends: "extends t t' \<Longrightarrow> lookup_Coding s c t' = lookup_Coding s c t"
  by (simp add: extends_def lookup_Coding_def)

lemma lookup_Property_extends:
  "extends t t' \<Longrightarrow> lookup_Property s c t = Some i \<Longrightarrow> lookup_Property s c t' = Some i"
  by (auto simp add: extends_def lookup_Property_def first_row_append)

lemma cache_ok_extends: "cache_ok cs cache t \<Longrightarrow> extends t t' \<Longrightarrow> cache_ok cs cache t'"
  unfolding cache_ok_def by (blast intro: lookup_Property_extends)

lemma cache_ok_empty: "cache_ok cs Map.empty t"
  by (simp add: cache_ok_def)

lemma tbl_resolve_Throw:
  "tbl_resolve cs k t = (Throw err, t') \<Longrightarrow>
   t' = t \<and> find_property cs k = None \<and> err = BadRequest (''Unknown property: '' @ k)"
  by (auto simp add: tbl_resolve_def split: option.splits)

lemma tbl_resolve_Ok:
  assumes "tbl_resolve cs k t = (Ok (i, b), t')"
  shows "lookup_Property (cs_id cs) k t' = Some i \<and>
         (\<exists>p. find_property cs k = Some p \<and> b = (pd_type p = ''code'')) \<and>
         extends t t' \<and> Coding_Property_tbl t' = Coding_Property_tbl t"
  using assms
  by (auto simp add: tbl_resolve_def extends_def lookup_Property_def first_row_None
      property_matches_def split: option.splits)

lemma tbl_property_Throw: "tbl_property cs e t = (Throw err, t') \<Longrightarrow> t' = t"
  by (auto simp add: tbl_property_def split: if_splits prod.splits result.splits
      dest: tbl_resolve_Throw)

lemma extends_ignore:
  "extends t t' \<Longrightarrow>
   extends t (t'\<lparr>Coding_Property_tbl := ignore_Coding_Property row (Coding_Property_tbl t')\<rparr>)"
  by (auto simp add: extends_def ignore_Coding_Property_def)

lemma tbl_property_Ok: "tbl_property cs e t = (Ok u, t') \<Longrightarrow> extends t t'"
  by (auto simp add: tbl_property_def split: if_splits prod.splits result.splits
      dest!: tbl_resolve_Ok intro: extends_ignore)

lemma tbl_property_extends: "tbl_property cs e t = (r, t') \<Longrightarrow> extends t t'"
  by (cases r) (auto dest: tbl_property_Ok tbl_property_Throw simp add: extends_refl)

lemma tbl_properties_extends: "tbl_properties cs ps t = (r, t') \<Longrightarrow> extends t t'"
proof (induction ps arbitrary: t)
  case Nil
  then show ?case by (simp add: extends_refl)
next
  case (Cons e ps)
  obtain r1 t1 where step: "tbl_property cs e t = (r1, t1)" by (cases "tbl_property cs e t")
  show ?case
  proof (cases r1)
    case (Ok u)
    with Cons.prems step have "tbl_properties cs ps t1 = (r, t')" by simp
    then have "extends t1 t'" by (rule Cons.IH)
    with tbl_property_extends[OF step] show ?thesis by (rule extends_trans)
  next
    case (Throw err)
    with Cons.prems step have "t' = t1" by simp
    with tbl_property_extends[OF step] show ?thesis by simp
  qed
qed

lemma cache_key_inject: "(u @ ''|'' @ k = u @ ''|'' @ k') = (k = k')"
  by simp

lemma cached_resolve_direct:
  assumes ok: "cache_ok cs cache (view d)"
  shows "\<exists>cache'.
     cached_resolve cs k cache d =
       (case resolveProperty cs k d of
          (Throw err, d') \<Rightarrow> (Throw err, d')
        | (Ok r, d') \<Rightarrow> (Ok (r, cache'), d')) \<and>
     cache_ok cs cache' (view (snd (resolveProperty cs k d)))"
proof -
  obtain r t' where res: "tbl_resolve cs k (view d) = (r, t')"
    by (cases "tbl_resolve cs k (view d)")
  have rp: "resolveProperty cs k d = (r, put_view t' d)"
    by (simp add: resolveProperty_tbl res)
  show ?thesis
  proof (cases "\<exists>i b. cache (cs_url cs @ ''|'' @ k) = Some (i, b) \<and> i \<noteq> 0")
    case True
    then obtain i b where hit: "cache (cs_url cs @ ''|'' @ k) = Some (i, b)" "i \<noteq> 0" by blast
    with ok obtain p where look: "lookup_Property (cs_id cs) k (view d) = Some i"
      and fp: "find_property cs k = Some p" and b: "b = (pd_type p = ''code'')"
      unfolding cache_ok_def by blast
    have "tbl_resolve cs k (view d) = (Ok (i, b), view d)"
      by (simp add: tbl_resolve_def fp look b)
    with res have "r = Ok (i, b)" "t' = view d" by simp_all
    then have "cached_resolve cs k cache d =
        (case resolveProperty cs k d of
          (Throw err, d') \<Rightarrow> (Throw err, d')
        | (Ok r, d') \<Rightarrow> (Ok (r, cache), d'))"
      using hit by (simp add: cached_resolve_def rp put_view_view Let_def)
    moreover have "cache_ok cs cache (view (snd (resolveProperty cs k d)))"
      using ok \<open>t' = view d\<close> by (simp add: rp view_put_view)
    ultimately show ?thesis by blast
  next
    case False
    then have miss: "(case cache (cs_url cs @ ''|'' @ k) of
              Some (propId, isRelationship) \<Rightarrow>
                if propId \<noteq> 0 then Some (propId, isRelationship) else None
            | None \<Rightarrow> None) = None"
      by (auto split: option.splits)
    show ?thesis
    proof (cases r)
      case (Throw err)
      then have "cached_resolve cs k cache d =
        (case resolveProperty cs k d of
          (Throw err, d') \<Rightarrow> (Throw err, d')
        | (Ok r, d') \<Rightarrow> (Ok (r, cache), d'))"
        using miss by (simp add: cached_resolve_def rp Let_def)
      moreover have "cache_ok cs cache (view (snd (resolveProperty cs k d)))"
        using ok tbl_resolve_Throw[of cs k "view d" _ t'] res Throw
        by (simp add: rp view_put_view)
      ultimately show ?thesis by blast
    next
      case (Ok v)
      obtain i b where v: "v = (i, b)" by (cases v)
      from res Ok v have res': "tbl_resolve cs k (view d) = (Ok (i, b), t')" by simp
      note facts = tbl_resolve_Ok[OF res']
      have "cached_resolve cs k cache d =
        (case resolveProperty cs k d of
          (Throw err, d') \<Rightarrow> (Throw err, d')
        | (Ok r, d') \<Rightarrow> (Ok (r, cache(cs_url cs @ ''|'' @ k \<mapsto> v)), d'))"
        using Ok miss by (simp add: cached_resolve_def rp Let_def)
      moreover have "cache_ok cs (cache(cs_url cs @ ''|'' @ k \<mapsto> v)) t'"
        using cache_ok_extends[OF ok, of t'] facts v
        unfolding cache_ok_def by (auto simp add: cache_key_inject)
      ultimately show ?thesis by (auto simp add: rp view_put_view)
    qed
  qed
qed

lemma processProperty_vs_direct:
  assumes ok: "cache_ok cs cache (view d)"
  shows "\<exists>cache'.
     processProperty cs e cache d =
       (case processProperty_direct cs e d of
          (Throw err, d') \<Rightarrow> (Throw err, d')
        | (Ok u, d') \<Rightarrow> (Ok cache', d')) \<and>
     cache_ok cs cache' (view (snd (processProperty_direct cs e d)))"
proof (cases "truthy_id (first_row (select_Coding_id (cs_id cs) (ip_code e) d))")
  case False
  then show ?thesis
    using ok by (auto simp add: processProperty_def processProperty_direct_def)
next
  case True
  from cached_resolve_direct[OF ok, of "ip_property e"] obtain cache' where
    cr: "cached_resolve cs (ip_property e) cache d =
       (case resolveProperty cs (ip_property e) d of
          (Throw err, d') \<Rightarrow> (Throw err, d')
        | (Ok r, d') \<Rightarrow> (Ok (r, cache'), d'))"
    and ok': "cache_ok cs cache' (view (snd (resolveProperty cs (ip_property e) d)))"
    by blast
  obtain r d1 where rp: "resolveProperty cs (ip_property e) d = (r, d1)"
    by (cases "resolveProperty cs (ip_property e) d")
  show ?thesis
  proof (cases r)
    case (Throw err)
    then show ?thesis
      using True ok' by (auto simp add: processProperty_def processProperty_direct_def cr rp)
  next
    case (Ok v)
    obtain i b where v: "v = (i, b)" by (cases v)
    have eq: "processProperty cs e cache d =
       (case processProperty_direct cs e d of
          (Throw err, d') \<Rightarrow> (Throw err, d')
        | (Ok u, d') \<Rightarrow> (Ok cache', d'))"
      using True Ok v by (simp add: processProperty_def processProperty_direct_def cr rp Let_def)
    have "extends (view d1) (view (snd (processProperty_direct cs e d)))"
      using True Ok v
      by (simp add: processProperty_direct_def rp Let_def insert_Coding_Property_ignore_def
          view_exec_write extends_ignore extends_refl)
    with ok' rp have "cache_ok cs cache' (view (snd (processProperty_direct cs e d)))"
      by (auto intro: cache_ok_extends)
    with eq show ?thesis by blast
  qed
qed

lemma loop_direct:
  "cache_ok cs cache (view d) \<Longrightarrow>
   processProperties_loop cs ps cache d = processProperties_direct cs ps d"
proof (induction ps arbitrary: cache d)
  case Nil
  show ?case by simp
next
  case (Cons e ps)
  from processProperty_vs_direct[OF Cons.prems, of e] obtain cache' where
    eq: "processProperty cs e cache d =
       (case processProperty_direct cs e d of
          (Throw err, d') \<Rightarrow> (Throw err, d')
        | (Ok u, d') \<Rightarrow> (Ok cache', d'))"
    and ok': "cache_ok cs cache' (view (snd (processProperty_direct cs e d)))"
    by blast
  obtain r d1 where step: "processProperty_direct cs e d = (r, d1)"
    by (cases "processProperty_direct cs e d")
  show ?case
  proof (cases r)
    case (Throw err)
    then show ?thesis by (simp add: eq step)
  next
    case (Ok u)
    with ok' step have "processProperties_loop cs ps cache' d1 = processProperties_direct cs ps d1"
      by (simp add: Cons.IH)
    with Ok show ?thesis by (simp add: eq step)
  qed
qed

lemma processProperties_tbl:
  "processProperties ps cs d =
     (case tbl_properties cs ps (view d) of (r, t') \<Rightarrow> (r, put_view t' d))"
  by (simp add: processProperties_def loop_direct cache_ok_empty processProperties_direct_tbl)

lemma importCodeSystem_tbl:
  "importCodeSystem cs concepts properties d =
     (case tbl_import cs concepts properties (view d) of
        (Throw err, t') \<Rightarrow> (Throw err, put_view t' (query_BEGIN d))
      | (Ok u, t') \<Rightarrow> (Ok (), \<lparr>committed = t', txn = None\<rparr>))"
proof -
  have c: "(case concepts of Some (c # rest) \<Rightarrow> importConcepts cs (c # rest) (query_BEGIN d)
             | _ \<Rightarrow> query_BEGIN d) =
           put_view (tbl_concepts cs (case concepts of None \<Rightarrow> [] | Some cs' \<Rightarrow> cs') (view d))
             (query_BEGIN d)" (is "?d2 = _")
    by (simp add: importConcepts_tbl view_query_BEGIN tbl_concepts_def put_view_view
        split: option.splits list.splits)
       (metis put_view_view view_query_BEGIN tables.surjective tables.update_convs(1) old.unit.exhaust)
  have p: "\<And>d2. (case properties of Some (p # rest) \<Rightarrow> processProperties (p # rest) cs d2
             | _ \<Rightarrow> (Ok (), d2)) =
           (case tbl_properties cs (case properties of None \<Rightarrow> [] | Some ps \<Rightarrow> ps) (view d2)
            of (r, t') \<Rightarrow> (r, put_view t' d2))"
    by (simp add: processProperties_tbl put_view_view split: option.splits list.splits)
  have commit: "\<And>t'. query_COMMIT (put_view t' (query_BEGIN d)) = \<lparr>committed = t', txn = None\<rparr>"
    by (simp add: query_COMMIT_def put_view_def exec_write_def query_BEGIN_def split: option.splits)
  show ?thesis
    unfolding importCodeSystem_def Let_def c p
    by (simp add: tbl_import_def view_put_view put_view_put_view commit
        split: prod.splits result.splits)
qed

section \<open>Facts about the concept writer\<close>

lemma merge_Coding_keys:
  "(\<lambda>r. (cr_system r, cr_code r)) ` set (merge_Coding s c disp rows) =
   insert (s, c) ((\<lambda>r. (cr_system r, cr_code r)) ` set rows)"
proof (cases "list_ex (coding_matches s c) rows")
  case True
  then obtain r0 where "r0 \<in> set rows" "cr_system r0 = s" "cr_code r0 = c"
    by (auto simp add: list_ex_iff coding_matches_def)
  then have "(s, c) \<in> (\<lambda>r. (cr_system r, cr_code r)) ` set rows" by force
  moreover have "(\<lambda>r. (cr_system r, cr_code r)) `
      set (map (\<lambda>r. if coding_matches s c r then r\<lparr>cr_display := disp\<rparr> else r) rows) =
      (\<lambda>r. (cr_system r, cr_code r)) ` set rows"
    by (induction rows) auto
  ultimately show ?thesis using True by (auto simp add: merge_Coding_def)
next
  case False
  then show ?thesis by (simp add: merge_Coding_def)
qed

lemma fold_merge_keys:
  "(\<lambda>r. (cr_system r, cr_code r)) `
     set (fold (\<lambda>c. merge_Coding s (c_code c) (c_display c)) concepts rows) =
   (\<lambda>r. (cr_system r, cr_code r)) ` set rows \<union> (\<lambda>c. (s, c_code c)) ` set concepts"
  by (induction concepts arbitrary: rows) (auto simp add: merge_Coding_keys)

lemma lookup_Coding_None:
  "(lookup_Coding s c t = None) = ((s, c) \<notin> (\<lambda>r. (cr_system r, cr_code r)) ` set (Coding_tbl t))"
  by (auto simp add: lookup_Coding_def first_row_None filter_empty_conv coding_matches_def)

lemma tbl_concepts_other:
  "CodeSystem_Property_tbl (tbl_concepts cs concepts t) = CodeSystem_Property_tbl t"
  "Coding_Property_tbl (tbl_concepts cs concepts t) = Coding_Property_tbl t"
  by (simp_all add: tbl_concepts_def)

lemma lookup_Property_tbl_concepts:
  "lookup_Property s c (tbl_concepts cs concepts t) = lookup_Property s c t"
  by (simp add: lookup_Property_def tbl_concepts_other)

lemmas eval_defs =
  importCodeSystem_def query_BEGIN_def query_COMMIT_def importConcepts_def
  insert_Coding_merge_def exec_write_def merge_Coding_def fresh_id_def processProperties_def
  processProperty_def cached_resolve_def resolveProperty_def find_property_def
  declared_property_def select_Coding_id_def select_CodeSystem_Property_id_def
  insert_CodeSystem_Property_def insert_Coding_Property_ignore_def ignore_Coding_Property_def
  same_key_def view_def coding_matches_def property_matches_def parentProperty_def
  ex_cs_def ex_cs_isa_def no_tables_def idle_db_def concept_def imported_def row_A_def
  row_B_def Let_def

section \<open>Atomicity of a failed import\<close>

text \<open>
  A throwing import commits nothing itself: the committed tables are the ones before the
  call, and the transaction it opened (or found open) is left open.
\<close>

lemma failed_import_uncommitted:
  assumes "importCodeSystem cs concepts properties d = (Throw err, d')"
  shows "committed d' = committed d \<and> txn d' \<noteq> None"
proof -
  from assms obtain t' where "d' = put_view t' (query_BEGIN d)"
    by (auto simp add: importCodeSystem_tbl split: prod.splits result.splits)
  then show ?thesis
    by (simp add: put_view_def committed_exec_write txn_exec_write txn_query_BEGIN
        committed_query_BEGIN)
qed

text \<open>
  C1. A failed import should leave the tables as they were before the call. The code opens
  the transaction and, when \<^verbatim>\<open>processProperties\<close> throws, leaves \<^verbatim>\<open>importCodeSystem\<close>
  without a rollback. Importing concept A with a property of the unknown code X into empty
  tables fails with "Unknown code", the committed tables are still empty, but the
  transaction stays open with the row of A in it: the handle now sees that row, and the
  next import on the handle, an empty one, commits it.
\<close>

theorem failed_import_keeps_rows:
  "importCodeSystem ex_cs (Some [concept ''A'']) (Some [imported ''X'' ''parent'' ''A''])
     (idle_db no_tables) =
     (Throw (BadRequest ''Unknown code: http://ex/cs|X''),
      \<lparr>committed = no_tables, txn = Some (no_tables\<lparr>Coding_tbl := [row_A]\<rparr>)\<rparr>) \<and>
   view \<lparr>committed = no_tables, txn = Some (no_tables\<lparr>Coding_tbl := [row_A]\<rparr>)\<rparr> \<noteq> no_tables \<and>
   importCodeSystem ex_cs None None
     \<lparr>committed = no_tables, txn = Some (no_tables\<lparr>Coding_tbl := [row_A]\<rparr>)\<rparr> =
     (Ok (), idle_db (no_tables\<lparr>Coding_tbl := [row_A]\<rparr>))"
  by (simp add: eval_defs)

section \<open>The empty import\<close>

text \<open>
  An import without concepts and without properties (each absent or empty) succeeds, its
  transaction is committed and closed, and the tables the handle sees are the ones it saw
  before. It commits whatever an open transaction holds: only on a handle without an open
  transaction nothing changes at all.
\<close>

lemma empty_import_view:
  assumes "concepts = None \<or> concepts = Some []"
    and "properties = None \<or> properties = Some []"
  shows "importCodeSystem cs concepts properties d = (Ok (), \<lparr>committed = view d, txn = None\<rparr>) \<and>
         view (snd (importCodeSystem cs concepts properties d)) = view d \<and>
         (txn d = None \<longrightarrow> snd (importCodeSystem cs concepts properties d) = d)"
  using assms
  by (auto simp add: importCodeSystem_def query_BEGIN_def query_COMMIT_def view_def
      split: option.splits)

text \<open>
  C10. An import without concepts and without properties should leave every row of the
  three tables unchanged. It succeeds and sends only BEGIN and COMMIT, but on the handle
  that a failed import has left, with its transaction still open, this COMMIT commits the
  rows of the failed call: the committed Coding table goes from empty to the row of A.
\<close>

theorem empty_import_commits_pending:
  "pending_db = \<lparr>committed = no_tables, txn = Some (no_tables\<lparr>Coding_tbl := [row_A]\<rparr>)\<rparr> \<and>
   importCodeSystem ex_cs None None pending_db =
     (Ok (), idle_db (no_tables\<lparr>Coding_tbl := [row_A]\<rparr>)) \<and>
   importCodeSystem ex_cs (Some []) (Some []) pending_db =
     (Ok (), idle_db (no_tables\<lparr>Coding_tbl := [row_A]\<rparr>)) \<and>
   Coding_tbl (committed pending_db) = [] \<and>
   Coding_tbl (committed (snd (importCodeSystem ex_cs None None pending_db))) = [row_A]"
  by (simp add: pending_db_def eval_defs)

section \<open>Implicit parent semantics\<close>





section \<open>Facts about one imported property\<close>

lemma cached_resolve_Throw:
  "cached_resolve cs k cache d = (Throw err, d') \<Longrightarrow>
   err = BadRequest (''Unknown property: '' @ k) \<and> d' = d"
  by (auto simp add: cached_resolve_def Let_def resolveProperty_tbl
      split: option.splits prod.splits result.splits if_splits dest!: tbl_resolve_Throw
      simp add: put_view_view)

lemma ignore_Coding_Property_has_key:
  "\<exists>row' \<in> set (ignore_Coding_Property row rows). same_key row row'"
  by (auto simp add: ignore_Coding_Property_def list_ex_iff same_key_def)

section \<open>Facts about the merged concepts\<close>

lemma view_importCodeSystem:
  "view (snd (importCodeSystem cs concepts properties d)) =
   snd (tbl_import cs concepts properties (view d))"
proof (cases "tbl_import cs concepts properties (view d)")
  case (Pair r t')
  show ?thesis
  proof (cases r)
    case (Ok u)
    with Pair show ?thesis by (simp add: importCodeSystem_tbl view_def)
  next
    case (Throw err)
    with Pair show ?thesis by (simp add: importCodeSystem_tbl view_put_view)
  qed
qed

lemma Coding_tbl_import:
  "Coding_tbl (snd (tbl_import cs concepts properties t)) =
   fold (\<lambda>c. merge_Coding (cs_id cs) (c_code c) (c_display c))
     (case concepts of None \<Rightarrow> [] | Some cs' \<Rightarrow> cs') (Coding_tbl t)"
proof -
  obtain r t' where run: "tbl_import cs concepts properties t = (r, t')"
    by (cases "tbl_import cs concepts properties t")
  then have "extends (tbl_concepts cs (case concepts of None \<Rightarrow> [] | Some cs' \<Rightarrow> cs') t) t'"
    unfolding tbl_import_def by (rule tbl_properties_extends)
  then show ?thesis by (simp add: run extends_def tbl_concepts_def)
qed

lemma merge_Coding_content:
  "coding_content (merge_Coding s c disp rows) =
   {x \<in> coding_content rows. \<not> (fst x = s \<and> fst (snd x) = c)} \<union> {(s, c, disp)}"
proof (cases "list_ex (coding_matches s c) rows")
  case True
  then obtain r0 where r0: "r0 \<in> set rows" "coding_matches s c r0"
    by (auto simp add: list_ex_iff)
  let ?f = "\<lambda>r. if coding_matches s c r then r\<lparr>cr_display := disp\<rparr> else r"
  let ?proj = "\<lambda>r. (cr_system r, cr_code r, cr_display r)"
  have "coding_content (map ?f rows) =
        {x \<in> coding_content rows. \<not> (fst x = s \<and> fst (snd x) = c)} \<union> {(s, c, disp)}"
  proof (intro set_eqI iffI)
    fix x assume "x \<in> coding_content (map ?f rows)"
    then obtain r where r: "r \<in> set rows" "x = ?proj (?f r)"
      by (auto simp add: coding_content_def)
    then show "x \<in> {x \<in> coding_content rows. \<not> (fst x = s \<and> fst (snd x) = c)} \<union> {(s, c, disp)}"
      by (cases "coding_matches s c r") (auto simp add: coding_content_def coding_matches_def)
  next
    fix x assume "x \<in> {x \<in> coding_content rows. \<not> (fst x = s \<and> fst (snd x) = c)} \<union> {(s, c, disp)}"
    then consider "x = (s, c, disp)"
      | r where "r \<in> set rows" "x = ?proj r" "\<not> coding_matches s c r"
      by (auto simp add: coding_content_def coding_matches_def)
    then show "x \<in> coding_content (map ?f rows)"
    proof cases
      case 1
      have "?proj (?f r0) = (s, c, disp)"
        using r0 by (simp add: coding_matches_def)
      with r0(1) 1 show ?thesis
        unfolding coding_content_def set_map image_image by (metis (no_types, lifting) image_eqI)
    next
      case 2
      then have "?proj (?f r) = x" by simp
      with 2(1) show ?thesis
        unfolding coding_content_def set_map image_image by (metis (no_types, lifting) image_eqI)
    qed
  qed
  with True show ?thesis by (simp add: merge_Coding_def)
next
  case False
  then have "{x \<in> coding_content rows. \<not> (fst x = s \<and> fst (snd x) = c)} = coding_content rows"
    by (auto simp add: list_ex_iff coding_content_def coding_matches_def)
  with False show ?thesis by (simp add: merge_Coding_def coding_content_def)
qed

lemma fold_merge_content:
  "distinct (map c_code concepts) \<Longrightarrow>
   coding_content (fold (\<lambda>c. merge_Coding s (c_code c) (c_display c)) concepts rows) =
   {x \<in> coding_content rows. \<not> (fst x = s \<and> fst (snd x) \<in> c_code ` set concepts)} \<union>
   (\<lambda>c. (s, c_code c, c_display c)) ` set concepts"
proof (induction concepts arbitrary: rows)
  case Nil
  show ?case by simp
next
  case (Cons c concepts)
  from Cons.prems have d: "distinct (map c_code concepts)" and n: "c_code c \<notin> c_code ` set concepts"
    by simp_all
  show ?case
    using n by (simp add: Cons.IH[OF d] merge_Coding_content) auto
qed

section \<open>The resolution cache\<close>

text \<open>
  C9. The cache is an object without prototype, so every string is an ordinary key, the
  names \<^verbatim>\<open>__proto__\<close>, \<^verbatim>\<open>constructor\<close> and \<^verbatim>\<open>toString\<close> included. For every batch, whatever
  its property codes, \<^verbatim>\<open>processProperties\<close> returns what the loop without cache returns, in
  which each entry is resolved by \<^verbatim>\<open>resolveProperty\<close>: the same result or error and the same
  handle. On the fresh cache every code misses and is resolved by \<^verbatim>\<open>resolveProperty\<close>, which
  alone can throw; and storing one code leaves the entries of all other codes as they were.
\<close>

theorem cache_resolves_like_resolver:
  "processProperties ps cs d = processProperties_direct cs ps d \<and>
   cached_resolve cs k Map.empty d =
     (case resolveProperty cs k d of
        (Throw err, d') \<Rightarrow> (Throw err, d')
      | (Ok r, d') \<Rightarrow> (Ok (r, [cs_url cs @ ''|'' @ k \<mapsto> r]), d')) \<and>
   (k' \<noteq> k \<longrightarrow>
      ((cache :: cache)(cs_url cs @ ''|'' @ k \<mapsto> v)) (cs_url cs @ ''|'' @ k') =
        cache (cs_url cs @ ''|'' @ k') \<and>
      cached_resolve cs k' [cs_url cs @ ''|'' @ k \<mapsto> v] d =
        (case resolveProperty cs k' d of
           (Throw err, d') \<Rightarrow> (Throw err, d')
         | (Ok r, d') \<Rightarrow> (Ok (r, [cs_url cs @ ''|'' @ k \<mapsto> v, cs_url cs @ ''|'' @ k' \<mapsto> r]), d')))"
proof (intro conjI impI)
  show "processProperties ps cs d = processProperties_direct cs ps d"
    by (simp add: processProperties_def loop_direct cache_ok_empty)
  show "cached_resolve cs k Map.empty d =
     (case resolveProperty cs k d of
        (Throw err, d') \<Rightarrow> (Throw err, d')
      | (Ok r, d') \<Rightarrow> (Ok (r, [cs_url cs @ ''|'' @ k \<mapsto> r]), d'))"
    by (simp add: cached_resolve_def Let_def split: prod.splits result.splits)
  assume "k' \<noteq> k"
  then show "(cache(cs_url cs @ ''|'' @ k \<mapsto> v)) (cs_url cs @ ''|'' @ k') =
        cache (cs_url cs @ ''|'' @ k')"
    by simp
  from \<open>k' \<noteq> k\<close> show "cached_resolve cs k' [cs_url cs @ ''|'' @ k \<mapsto> v] d =
        (case resolveProperty cs k' d of
           (Throw err, d') \<Rightarrow> (Throw err, d')
         | (Ok r, d') \<Rightarrow> (Ok (r, [cs_url cs @ ''|'' @ k \<mapsto> v, cs_url cs @ ''|'' @ k' \<mapsto> r]), d'))"
    by (simp add: cached_resolve_def Let_def split: prod.splits result.splits)
qed

theorem cache_resolves_like_resolver_witness:
  "processProperties_direct ex_cs_crafted
     [imported ''A'' ''__proto__'' ''v'', imported ''A'' ''constructor'' ''A'',
      imported ''A'' ''__proto__'' ''w'', imported ''A'' ''toString'' ''v'']
     (idle_db (no_tables\<lparr>Coding_tbl := [row_A]\<rparr>)) =
   (Throw (BadRequest ''Unknown property: toString''),
    idle_db
     \<lparr>Coding_tbl = [row_A],
      CodeSystem_Property_tbl =
        [\<lparr>pr_id = 1, pr_system = ''cs1'', pr_code = ''__proto__'', pr_type = ''string'',
          pr_uri = None, pr_description = None\<rparr>,
         \<lparr>pr_id = 2, pr_system = ''cs1'', pr_code = ''constructor'', pr_type = ''code'',
          pr_uri = None, pr_description = None\<rparr>],
      Coding_Property_tbl =
        [\<lparr>cp_coding = 1, cp_property = 1, cp_value = ''v'', cp_target = None\<rparr>,
         \<lparr>cp_coding = 1, cp_property = 2, cp_value = ''A'', cp_target = Some 1\<rparr>,
         \<lparr>cp_coding = 1, cp_property = 1, cp_value = ''w'', cp_target = None\<rparr>]\<rparr>) \<and>
   [cs_url ex_cs_crafted @ ''|'' @ ''__proto__'' \<mapsto> (1, False)]
     (cs_url ex_cs_crafted @ ''|'' @ ''constructor'') = None"
proof -
  have ne: "''constructor'' \<noteq> ''__proto__''" by simp
  from cache_resolves_like_resolver [of _ ex_cs_crafted _ "''__proto__''" "''constructor''"
      Map.empty "(1, False)"] ne
  have 1: "[cs_url ex_cs_crafted @ ''|'' @ ''__proto__'' \<mapsto> (1, False)]
     (cs_url ex_cs_crafted @ ''|'' @ ''constructor'') = None"
    by simp
  have "processProperties
     [imported ''A'' ''__proto__'' ''v'', imported ''A'' ''constructor'' ''A'',
      imported ''A'' ''__proto__'' ''w'', imported ''A'' ''toString'' ''v'']
      ex_cs_crafted (idle_db (no_tables\<lparr>Coding_tbl := [row_A]\<rparr>)) =
   (Throw (BadRequest ''Unknown property: toString''),
    idle_db
     \<lparr>Coding_tbl = [row_A],
      CodeSystem_Property_tbl =
        [\<lparr>pr_id = 1, pr_system = ''cs1'', pr_code = ''__proto__'', pr_type = ''string'',
          pr_uri = None, pr_description = None\<rparr>,
         \<lparr>pr_id = 2, pr_system = ''cs1'', pr_code = ''constructor'', pr_type = ''code'',
          pr_uri = None, pr_description = None\<rparr>],
      Coding_Property_tbl =
        [\<lparr>cp_coding = 1, cp_property = 1, cp_value = ''v'', cp_target = None\<rparr>,
         \<lparr>cp_coding = 1, cp_property = 2, cp_value = ''A'', cp_target = Some 1\<rparr>,
         \<lparr>cp_coding = 1, cp_property = 1, cp_value = ''w'', cp_target = None\<rparr>]\<rparr>)"
    by (simp add: eval_defs ex_cs_crafted_def)
  with cache_resolves_like_resolver [of
      "[imported ''A'' ''__proto__'' ''v'', imported ''A'' ''constructor'' ''A'',
        imported ''A'' ''__proto__'' ''w'', imported ''A'' ''toString'' ''v'']"
      ex_cs_crafted "idle_db (no_tables\<lparr>Coding_tbl := [row_A]\<rparr>)"] 1
  show ?thesis by simp
qed

section \<open>Running an import again\<close>

lemma list_ex_same_key_append:
  "list_ex (same_key row) rows \<Longrightarrow> list_ex (same_key row) (rows @ ys)"
  by (auto simp add: list_ex_iff)

lemma list_ex_same_key_ignore: "list_ex (same_key row) (ignore_Coding_Property row rows)"
  by (simp add: ignore_Coding_Property_def list_ex_iff same_key_def)

lemma tbl_property_Throw_replay:
  assumes "tbl_property cs e t = (Throw err, t1)" and "extends t t''"
  shows "tbl_property cs e t'' = (Throw err, t'')"
proof (cases "truthy_id (lookup_Coding (cs_id cs) (ip_code e) t)")
  case False
  with assms show ?thesis
    by (simp add: tbl_property_def lookup_Coding_extends)
next
  case True
  with assms(1) obtain t_r where "tbl_resolve cs (ip_property e) t = (Throw err, t_r)"
    by (auto simp add: tbl_property_def split: prod.splits result.splits)
  then have "find_property cs (ip_property e) = None"
    and "err = BadRequest (''Unknown property: '' @ ip_property e)"
    by (auto dest: tbl_resolve_Throw)
  with True assms(2) show ?thesis
    by (simp add: tbl_property_def lookup_Coding_extends tbl_resolve_def)
qed

lemma tbl_property_Ok_replay:
  assumes step: "tbl_property cs e t = (Ok u, t1)" and ext: "extends t1 t''"
  shows "tbl_property cs e t'' = (Ok (), t'')"
proof -
  from step have owner: "truthy_id (lookup_Coding (cs_id cs) (ip_code e) t)"
    by (auto simp add: tbl_property_def split: if_splits)
  with step obtain pid rel t_r where
    res: "tbl_resolve cs (ip_property e) t = (Ok (pid, rel), t_r)" and
    t1: "t1 = t_r\<lparr>Coding_Property_tbl := ignore_Coding_Property
            (property_row cs e (the (lookup_Coding (cs_id cs) (ip_code e) t)) pid rel t_r)
            (Coding_Property_tbl t_r)\<rparr>"
    by (auto simp add: tbl_property_def split: prod.splits result.splits)
  let ?row = "property_row cs e (the (lookup_Coding (cs_id cs) (ip_code e) t)) pid rel t_r"
  from tbl_resolve_Ok[OF res] obtain p where
    look: "lookup_Property (cs_id cs) (ip_property e) t_r = Some pid" and
    fp: "find_property cs (ip_property e) = Some p" and rel: "rel = (pd_type p = ''code'')" and
    ext_r: "extends t t_r"
    by blast
  have ext1: "extends t_r t1" unfolding t1 by (rule extends_ignore) (rule extends_refl)
  have ext_t: "extends t t''" and ext_r'': "extends t_r t''"
    using ext_r ext1 ext by (blast intro: extends_trans)+
  have look'': "lookup_Property (cs_id cs) (ip_property e) t'' = Some pid"
    using ext_r'' look by (rule lookup_Property_extends)
  have res'': "tbl_resolve cs (ip_property e) t'' = (Ok (pid, rel), t'')"
    by (simp add: tbl_resolve_def fp look'' rel)
  have row'': "\<And>cid. property_row cs e cid pid rel t'' = property_row cs e cid pid rel t_r"
    by (simp add: property_row_def lookup_Coding_extends[OF ext_r''])
  have "list_ex (same_key ?row) (Coding_Property_tbl t1)"
    unfolding t1 by (simp add: list_ex_same_key_ignore)
  moreover from ext obtain ys where "Coding_Property_tbl t'' = Coding_Property_tbl t1 @ ys"
    by (auto simp add: extends_def)
  ultimately have "list_ex (same_key ?row) (Coding_Property_tbl t'')"
    by (simp add: list_ex_same_key_append)
  then have "ignore_Coding_Property ?row (Coding_Property_tbl t'') = Coding_Property_tbl t''"
    by (simp add: ignore_Coding_Property_def)
  with owner show ?thesis
    by (simp add: tbl_property_def lookup_Coding_extends[OF ext_t] res'' row'')
qed

lemma tbl_properties_replay:
  "tbl_properties cs ps t = (r, t') \<Longrightarrow> extends t' t'' \<Longrightarrow> tbl_properties cs ps t'' = (r, t'')"
proof (induction ps arbitrary: t)
  case Nil
  then show ?case by simp
next
  case (Cons e ps)
  obtain r1 t1 where step: "tbl_property cs e t = (r1, t1)" by (cases "tbl_property cs e t")
  show ?case
  proof (cases r1)
    case (Throw err)
    with Cons.prems(1) step have r: "r = Throw err" and t': "t' = t1" by simp_all
    from step Throw have "t1 = t" by (auto dest: tbl_property_Throw)
    with t' Cons.prems(2) have "extends t t''" by simp
    with step Throw have "tbl_property cs e t'' = (Throw err, t'')"
      by (auto intro: tbl_property_Throw_replay)
    with r show ?thesis by simp
  next
    case (Ok u)
    with Cons.prems(1) step have rest: "tbl_properties cs ps t1 = (r, t')" by simp
    then have "extends t1 t'" by (rule tbl_properties_extends)
    with Cons.prems(2) have "extends t1 t''" by (blast intro: extends_trans)
    with step Ok have "tbl_property cs e t'' = (Ok (), t'')"
      by (auto intro: tbl_property_Ok_replay)
    moreover from rest Cons.prems(2) have "tbl_properties cs ps t'' = (r, t'')"
      by (rule Cons.IH)
    ultimately show ?thesis by simp
  qed
qed

text \<open>Merging the concepts of a batch a second time.\<close>

lemma merge_Coding_present:
  "list_ex (coding_matches s c) rows \<Longrightarrow>
   merge_Coding s c disp rows =
     map (\<lambda>r. if coding_matches s c r then r\<lparr>cr_display := disp\<rparr> else r) rows"
  by (simp add: merge_Coding_def)

lemma list_ex_matches_keys:
  "list_ex (coding_matches s c) rows = ((s, c) \<in> (\<lambda>r. (cr_system r, cr_code r)) ` set rows)"
  by (auto simp add: list_ex_iff coding_matches_def)

lemma fold_merge_present:
  "(\<lambda>c. (s, c_code c)) ` set concepts \<subseteq> (\<lambda>r. (cr_system r, cr_code r)) ` set rows \<Longrightarrow>
   fold (\<lambda>c. merge_Coding s (c_code c) (c_display c)) concepts rows =
   map (fold (\<lambda>c r. if coding_matches s (c_code c) r then r\<lparr>cr_display := c_display c\<rparr> else r)
          concepts) rows"
proof (induction concepts arbitrary: rows)
  case Nil
  show ?case by simp
next
  case (Cons c concepts)
  let ?U = "\<lambda>c r. if coding_matches s (c_code c) r then r\<lparr>cr_display := c_display c\<rparr> else r"
  from Cons.prems have here: "list_ex (coding_matches s (c_code c)) rows"
    by (simp add: list_ex_matches_keys)
  then have m: "merge_Coding s (c_code c) (c_display c) rows = map (?U c) rows"
    by (rule merge_Coding_present)
  have "(\<lambda>r. (cr_system r, cr_code r)) ` set (map (?U c) rows) =
        (\<lambda>r. (cr_system r, cr_code r)) ` set rows"
    using merge_Coding_keys[of s "c_code c" "c_display c" rows] here
    by (auto simp add: m list_ex_matches_keys)
  with Cons.prems have
    "(\<lambda>c. (s, c_code c)) ` set concepts \<subseteq> (\<lambda>r. (cr_system r, cr_code r)) ` set (map (?U c) rows)"
    by simp
  from Cons.IH[OF this] show ?case
    by (simp add: m comp_def)
qed

lemma fold_update_display:
  "\<exists>x. fold (\<lambda>c r. if coding_matches s (c_code c) r then r\<lparr>cr_display := c_display c\<rparr> else r)
          concepts r = r\<lparr>cr_display := x\<rparr>"
proof (induction concepts arbitrary: r)
  case Nil
  show ?case by (rule exI[of _ "cr_display r"]) simp
next
  case (Cons c concepts)
  show ?case
  proof (cases "coding_matches s (c_code c) r")
    case True
    from Cons.IH[of "r\<lparr>cr_display := c_display c\<rparr>"] True show ?thesis by auto
  next
    case False
    with Cons.IH[of r] show ?thesis by simp
  qed
qed

lemma fold_merge_settled:
  "\<forall>r \<in> set (fold (\<lambda>c. merge_Coding s (c_code c) (c_display c)) concepts rows).
     fold (\<lambda>c r. if coding_matches s (c_code c) r then r\<lparr>cr_display := c_display c\<rparr> else r)
       concepts r = r"
proof (induction concepts arbitrary: rows rule: rev_induct)
  case Nil
  show ?case by simp
next
  case (snoc c concepts)
  let ?U = "\<lambda>c r. if coding_matches s (c_code c) r then r\<lparr>cr_display := c_display c\<rparr> else r"
  let ?R = "fold (\<lambda>c. merge_Coding s (c_code c) (c_display c)) concepts rows"
  have IH: "\<And>r. r \<in> set ?R \<Longrightarrow> fold ?U concepts r = r" using snoc.IH by blast
  have matched: "\<And>r. coding_matches s (c_code c) r \<Longrightarrow>
      ?U c (fold ?U concepts (r\<lparr>cr_display := c_display c\<rparr>)) = r\<lparr>cr_display := c_display c\<rparr>"
  proof -
    fix r assume mt: "coding_matches s (c_code c) r"
    from fold_update_display[of s concepts "r\<lparr>cr_display := c_display c\<rparr>"]
    obtain x where "fold ?U concepts (r\<lparr>cr_display := c_display c\<rparr>) =
        r\<lparr>cr_display := c_display c\<rparr>\<lparr>cr_display := x\<rparr>" by blast
    with mt show "?U c (fold ?U concepts (r\<lparr>cr_display := c_display c\<rparr>)) = r\<lparr>cr_display := c_display c\<rparr>"
      by (simp add: coding_matches_def)
  qed
  show ?case
  proof
    fix r assume "r \<in> set (fold (\<lambda>c. merge_Coding s (c_code c) (c_display c)) (concepts @ [c]) rows)"
    then have mem: "r \<in> set (merge_Coding s (c_code c) (c_display c) ?R)" by simp
    show "fold ?U (concepts @ [c]) r = r"
    proof (cases "list_ex (coding_matches s (c_code c)) ?R")
      case True
      with mem obtain r' where r': "r' \<in> set ?R" "r = ?U c r'"
        by (auto simp add: merge_Coding_def)
      show ?thesis
      proof (cases "coding_matches s (c_code c) r'")
        case True
        with r' matched[OF True] show ?thesis by simp
      next
        case False
        with r' IH[of r'] show ?thesis by simp
      qed
    next
      case False
      with mem consider "r \<in> set ?R"
        | "r = \<lparr>cr_id = fresh_id (map cr_id ?R), cr_system = s, cr_code = c_code c,
                cr_display = c_display c\<rparr>"
        by (auto simp add: merge_Coding_def)
      then show ?thesis
      proof cases
        case 1
        with False have "\<not> coding_matches s (c_code c) r" by (auto simp add: list_ex_iff)
        with IH[OF 1] show ?thesis by simp
      next
        case 2
        have mt: "coding_matches s (c_code c) r" using 2 by (simp add: coding_matches_def)
        have eq: "r\<lparr>cr_display := c_display c\<rparr> = r" using 2 by simp
        have "?U c (fold ?U concepts r) = r" using matched[OF mt] unfolding eq .
        then show ?thesis by simp
      qed
    qed
  qed
qed

lemma fold_merge_twice:
  "fold (\<lambda>c. merge_Coding s (c_code c) (c_display c)) concepts
     (fold (\<lambda>c. merge_Coding s (c_code c) (c_display c)) concepts rows) =
   fold (\<lambda>c. merge_Coding s (c_code c) (c_display c)) concepts rows"
proof -
  let ?R = "fold (\<lambda>c. merge_Coding s (c_code c) (c_display c)) concepts rows"
  have "(\<lambda>c. (s, c_code c)) ` set concepts \<subseteq> (\<lambda>r. (cr_system r, cr_code r)) ` set ?R"
    by (simp add: fold_merge_keys)
  from fold_merge_present[OF this] fold_merge_settled[of s concepts rows]
  show ?thesis by (simp add: map_idI)
qed

lemma tbl_import_again:
  assumes run: "tbl_import cs concepts properties t = (r, t')"
  shows "tbl_import cs concepts properties t' = (r, t')"
proof -
  let ?cs = "case concepts of None \<Rightarrow> [] | Some cs' \<Rightarrow> cs'"
  let ?ps = "case properties of None \<Rightarrow> [] | Some ps \<Rightarrow> ps"
  from run have props: "tbl_properties cs ?ps (tbl_concepts cs ?cs t) = (r, t')"
    by (simp add: tbl_import_def)
  have "Coding_tbl t' = Coding_tbl (tbl_concepts cs ?cs t)"
    using tbl_properties_extends[OF props] by (simp add: extends_def)
  then have "tbl_concepts cs ?cs t' = t'"
    by (simp add: tbl_concepts_def fold_merge_twice)
  moreover have "tbl_properties cs ?ps t' = (r, t')"
    using props extends_refl by (rule tbl_properties_replay)
  ultimately show ?thesis by (simp add: tbl_import_def)
qed

text \<open>
  C2. Running the same import a second time, on the handle the first run left, returns
  what the first run returned (success, or the same error) and leaves that handle, and
  with it the three tables, exactly as the first run left it.
\<close>

theorem import_idempotent:
  "importCodeSystem cs concepts properties (snd (importCodeSystem cs concepts properties d)) =
     importCodeSystem cs concepts properties d"
proof -
  obtain r t' where run: "tbl_import cs concepts properties (view d) = (r, t')"
    by (cases "tbl_import cs concepts properties (view d)")
  note again = tbl_import_again[OF run]
  show ?thesis
  proof (cases r)
    case (Ok u)
    then have first: "importCodeSystem cs concepts properties d = (Ok (), \<lparr>committed = t', txn = None\<rparr>)"
      by (simp add: importCodeSystem_tbl run)
    have "view \<lparr>committed = t', txn = None\<rparr> = t'" by (simp add: view_def)
    with again Ok show ?thesis unfolding first by (simp add: importCodeSystem_tbl)
  next
    case (Throw err)
    then have first: "importCodeSystem cs concepts properties d =
        (Throw err, put_view t' (query_BEGIN d))"
      by (simp add: importCodeSystem_tbl run)
    have open_txn: "txn (put_view t' (query_BEGIN d)) \<noteq> None"
      by (simp add: put_view_def txn_exec_write txn_query_BEGIN)
    then have "query_BEGIN (put_view t' (query_BEGIN d)) = put_view t' (query_BEGIN d)"
      by (auto simp add: query_BEGIN_def)
    with again Throw show ?thesis
      unfolding first by (simp add: importCodeSystem_tbl view_put_view put_view_put_view)
  qed
qed

section \<open>Property definitions are created once\<close>

lemma lookup_Property_rows: "(lookup_Property s c t = None) = (property_rows s c t = [])"
  by (simp add: lookup_Property_def property_rows_def first_row_None)

lemma tbl_resolve_rows:
  assumes "tbl_resolve cs k t = (r, t')" and "length (property_rows s c t) \<le> 1"
  shows "length (property_rows s c t') \<le> 1"
proof (cases "find_property cs k")
  case None
  with assms show ?thesis by (simp add: tbl_resolve_def)
next
  case (Some p)
  show ?thesis
  proof (cases "lookup_Property (cs_id cs) k t")
    case (Some i)
    with assms \<open>find_property cs k = Some p\<close> show ?thesis by (simp add: tbl_resolve_def)
  next
    case None
    then have empty: "property_rows (cs_id cs) k t = []" by (simp add: lookup_Property_rows)
    from assms(1) None \<open>find_property cs k = Some p\<close>
    have t': "CodeSystem_Property_tbl t' = CodeSystem_Property_tbl t @
        [\<lparr>pr_id = fresh_id (map pr_id (CodeSystem_Property_tbl t)), pr_system = cs_id cs,
          pr_code = k, pr_type = pd_type p, pr_uri = pd_uri p,
          pr_description = pd_description p\<rparr>]"
      by (auto simp add: tbl_resolve_def)
    show ?thesis
    proof (cases "s = cs_id cs \<and> c = k")
      case True
      with empty show ?thesis by (simp add: property_rows_def t')
    next
      case False
      with assms(2) show ?thesis by (auto simp add: property_rows_def t' property_matches_def)
    qed
  qed
qed

lemma tbl_property_rows:
  assumes "tbl_property cs e t = (r, t')" and "length (property_rows s c t) \<le> 1"
  shows "length (property_rows s c t') \<le> 1"
proof (cases "truthy_id (lookup_Coding (cs_id cs) (ip_code e) t)")
  case False
  with assms show ?thesis by (simp add: tbl_property_def)
next
  case True
  obtain r1 t1 where res: "tbl_resolve cs (ip_property e) t = (r1, t1)"
    by (cases "tbl_resolve cs (ip_property e) t")
  from tbl_resolve_rows[OF res assms(2)] have "length (property_rows s c t1) \<le> 1" .
  with assms(1) True res show ?thesis
    by (cases r1) (auto simp add: tbl_property_def property_rows_def)
qed

lemma tbl_properties_rows:
  "tbl_properties cs ps t = (r, t') \<Longrightarrow> length (property_rows s c t) \<le> 1 \<Longrightarrow>
   length (property_rows s c t') \<le> 1"
proof (induction ps arbitrary: t)
  case Nil
  then show ?case by simp
next
  case (Cons e ps)
  obtain r1 t1 where step: "tbl_property cs e t = (r1, t1)" by (cases "tbl_property cs e t")
  from tbl_property_rows[OF step Cons.prems(2)] have one: "length (property_rows s c t1) \<le> 1" .
  show ?case
  proof (cases r1)
    case (Ok u)
    with Cons.prems(1) step have "tbl_properties cs ps t1 = (r, t')" by simp
    from Cons.IH[OF this one] show ?thesis .
  next
    case (Throw err)
    with Cons.prems(1) step one show ?thesis by simp
  qed
qed

lemma tbl_import_rows:
  assumes "tbl_import cs concepts properties t = (r, t')"
    and "length (property_rows s c t) \<le> 1"
  shows "length (property_rows s c t') \<le> 1"
proof -
  have "property_rows s c (tbl_concepts cs (case concepts of None \<Rightarrow> [] | Some cs' \<Rightarrow> cs') t) =
        property_rows s c t"
    by (simp add: property_rows_def tbl_concepts_other)
  with assms(2) have "length (property_rows s c
      (tbl_concepts cs (case concepts of None \<Rightarrow> [] | Some cs' \<Rightarrow> cs') t)) \<le> 1"
    by simp
  with assms(1) show ?thesis
    unfolding tbl_import_def by (rule tbl_properties_rows)
qed

lemma tbl_property_resolved:
  assumes "tbl_property cs e t = (Ok u, t')"
  shows "\<exists>i. lookup_Property (cs_id cs) (ip_property e) t' = Some i"
proof -
  from assms obtain pid rel t_r where
    res: "tbl_resolve cs (ip_property e) t = (Ok (pid, rel), t_r)" and
    ext: "extends t_r t'"
    by (auto simp add: tbl_property_def extends_ignore extends_refl
        split: if_splits prod.splits result.splits)
  from tbl_resolve_Ok[OF res] have "lookup_Property (cs_id cs) (ip_property e) t_r = Some pid"
    by blast
  with ext show ?thesis by (blast intro: lookup_Property_extends)
qed

lemma tbl_properties_resolved:
  "tbl_properties cs ps t = (Ok u, t') \<Longrightarrow> e \<in> set ps \<Longrightarrow>
   \<exists>i. lookup_Property (cs_id cs) (ip_property e) t' = Some i"
proof (induction ps arbitrary: t)
  case Nil
  then show ?case by simp
next
  case (Cons e' ps)
  from Cons.prems(1) obtain u1 t1 where step: "tbl_property cs e' t = (Ok u1, t1)"
    and rest: "tbl_properties cs ps t1 = (Ok u, t')"
    by (auto split: prod.splits result.splits)
  show ?case
  proof (cases "e = e'")
    case True
    from tbl_property_resolved[OF step] obtain i where
      "lookup_Property (cs_id cs) (ip_property e') t1 = Some i" by blast
    with tbl_properties_extends[OF rest] True show ?thesis
      by (blast intro: lookup_Property_extends)
  next
    case False
    with Cons.prems(2) have "e \<in> set ps" by simp
    with rest show ?thesis by (rule Cons.IH)
  qed
qed

lemma importCodeSystem_Ok:
  assumes "importCodeSystem cs concepts properties d = (Ok u, d')"
  shows "tbl_import cs concepts properties (view d) = (Ok (), committed d') \<and> txn d' = None"
  using assms
  by (auto simp add: importCodeSystem_tbl split: prod.splits result.splits)

text \<open>
  C6. Let the handle see at most one definition row for \<^verbatim>\<open>(C, p)\<close>, as the unique key of
  the table demands. After two successful imports into C, one after the other on the same
  handle, whose property batches both name the code p, the committed CodeSystem_Property
  table has exactly one row for \<^verbatim>\<open>(C, p)\<close>; so it has after the first of them.
\<close>

theorem unique_property_definition:
  assumes unique: "length (property_rows (cs_id cs) p (view d)) \<le> 1"
    and first: "importCodeSystem cs concepts1 (Some props1) d = (Ok (), d1)"
    and second: "importCodeSystem cs concepts2 (Some props2) d1 = (Ok (), d2)"
    and named: "p \<in> ip_property ` set props1" "p \<in> ip_property ` set props2"
  shows "length (property_rows (cs_id cs) p (committed d1)) = 1 \<and>
         length (property_rows (cs_id cs) p (committed d2)) = 1"
proof -
  from importCodeSystem_Ok[OF first] have
    run1: "tbl_import cs concepts1 (Some props1) (view d) = (Ok (), committed d1)"
    and v1: "view d1 = committed d1"
    by (simp_all add: view_def)
  from importCodeSystem_Ok[OF second] v1 have
    run2: "tbl_import cs concepts2 (Some props2) (committed d1) = (Ok (), committed d2)"
    by simp
  have le1: "length (property_rows (cs_id cs) p (committed d1)) \<le> 1"
    using run1 unique by (rule tbl_import_rows)
  have le2: "length (property_rows (cs_id cs) p (committed d2)) \<le> 1"
    using run2 le1 by (rule tbl_import_rows)
  from named obtain e1 e2 where e: "e1 \<in> set props1" "ip_property e1 = p"
    "e2 \<in> set props2" "ip_property e2 = p" by auto
  from run1 e(1) have "\<exists>i. lookup_Property (cs_id cs) (ip_property e1) (committed d1) = Some i"
    unfolding tbl_import_def by (auto intro: tbl_properties_resolved)
  then have ge1: "property_rows (cs_id cs) p (committed d1) \<noteq> []"
    using e(2) lookup_Property_rows[of "cs_id cs" p "committed d1"] by auto
  from run2 e(3) have "\<exists>i. lookup_Property (cs_id cs) (ip_property e2) (committed d2) = Some i"
    unfolding tbl_import_def by (auto intro: tbl_properties_resolved)
  then have ge2: "property_rows (cs_id cs) p (committed d2) \<noteq> []"
    using e(4) lookup_Property_rows[of "cs_id cs" p "committed d2"] by auto
  from le1 ge1 le2 ge2 show ?thesis
    by (cases "property_rows (cs_id cs) p (committed d1)";
        cases "property_rows (cs_id cs) p (committed d2)") simp_all
qed

theorem unique_property_definition_witness:
  "length (property_rows ''cs1'' ''parent''
     (committed (snd (importCodeSystem ex_cs (Some [concept ''B''])
        (Some [imported ''B'' ''parent'' ''A''])
        (snd (importCodeSystem ex_cs (Some [concept ''A''])
           (Some [imported ''A'' ''parent'' ''A'']) (idle_db no_tables))))))) = 1"
proof -
  let ?d0 = "idle_db no_tables"
  let ?d1 = "snd (importCodeSystem ex_cs (Some [concept ''A''])
           (Some [imported ''A'' ''parent'' ''A'']) ?d0)"
  let ?d2 = "snd (importCodeSystem ex_cs (Some [concept ''B''])
        (Some [imported ''B'' ''parent'' ''A'']) ?d1)"
  have u: "length (property_rows (cs_id ex_cs) ''parent'' (view ?d0)) \<le> 1"
    by (simp add: property_rows_def eval_defs)
  have f: "importCodeSystem ex_cs (Some [concept ''A''])
           (Some [imported ''A'' ''parent'' ''A'']) ?d0 = (Ok (), ?d1)"
    by (simp add: eval_defs)
  have s: "importCodeSystem ex_cs (Some [concept ''B''])
        (Some [imported ''B'' ''parent'' ''A'']) ?d1 = (Ok (), ?d2)"
    by (simp add: eval_defs)
  have n: "''parent'' \<in> ip_property ` set [imported ''A'' ''parent'' ''A'']"
    "''parent'' \<in> ip_property ` set [imported ''B'' ''parent'' ''A'']"
    by (simp_all add: imported_def)
  from unique_property_definition [OF u f s n] show ?thesis
    by (simp add: ex_cs_def)
qed

section \<open>The rows written for the imported properties\<close>

lemma fold_max_ge: "a \<le> fold max ids a \<and> (\<forall>x \<in> set ids. x \<le> fold max ids (a::nat))"
proof (induction ids arbitrary: a)
  case Nil
  show ?case by simp
next
  case (Cons i ids)
  from Cons.IH[of "max i a"] show ?case by auto
qed

lemma fresh_id_new: "fresh_id ids \<notin> set ids"
  using fold_max_ge[of 0 ids] by (auto simp add: fresh_id_def)

lemma fresh_id_pos: "fresh_id ids \<noteq> 0"
  by (simp add: fresh_id_def)

lemma tbl_resolve_distinct:
  "tbl_resolve cs k t = (r, t') \<Longrightarrow> distinct (map pr_id (CodeSystem_Property_tbl t)) \<Longrightarrow>
   distinct (map pr_id (CodeSystem_Property_tbl t'))"
  using fresh_id_new[of "map pr_id (CodeSystem_Property_tbl t)"]
  by (auto simp add: tbl_resolve_def split: option.splits)

lemma tbl_property_distinct:
  "tbl_property cs e t = (r, t') \<Longrightarrow> distinct (map pr_id (CodeSystem_Property_tbl t)) \<Longrightarrow>
   distinct (map pr_id (CodeSystem_Property_tbl t'))"
  by (auto simp add: tbl_property_def split: if_splits prod.splits result.splits
      dest: tbl_resolve_distinct)

lemma tbl_properties_distinct:
  "tbl_properties cs ps t = (r, t') \<Longrightarrow> distinct (map pr_id (CodeSystem_Property_tbl t)) \<Longrightarrow>
   distinct (map pr_id (CodeSystem_Property_tbl t'))"
proof (induction ps arbitrary: t)
  case Nil
  then show ?case by simp
next
  case (Cons e ps)
  obtain r1 t1 where step: "tbl_property cs e t = (r1, t1)" by (cases "tbl_property cs e t")
  from tbl_property_distinct[OF step Cons.prems(2)]
  have d1: "distinct (map pr_id (CodeSystem_Property_tbl t1))" .
  show ?case
  proof (cases r1)
    case (Ok u)
    with Cons.prems(1) step have "tbl_properties cs ps t1 = (r, t')" by simp
    from Cons.IH[OF this d1] show ?thesis .
  next
    case (Throw err)
    with Cons.prems(1) step d1 show ?thesis by simp
  qed
qed

lemma lookup_Property_row:
  "lookup_Property s k t = Some i \<Longrightarrow>
   \<exists>r \<in> set (CodeSystem_Property_tbl t). pr_code r = k \<and> pr_id r = i"
proof -
  assume "lookup_Property s k t = Some i"
  then obtain r rest where "filter (property_matches s k) (CodeSystem_Property_tbl t) = r # rest"
    and "pr_id r = i"
    by (cases "filter (property_matches s k) (CodeSystem_Property_tbl t)")
       (auto simp add: lookup_Property_def)
  then have "r \<in> set (filter (property_matches s k) (CodeSystem_Property_tbl t))" by simp
  with \<open>pr_id r = i\<close> show ?thesis by (auto simp add: property_matches_def)
qed

lemma lookup_Property_same_id:
  assumes "distinct (map pr_id (CodeSystem_Property_tbl t))"
    and "lookup_Property s k t = Some i" and "lookup_Property s k' t = Some i"
  shows "k = k'"
proof -
  from assms(2) obtain r where r: "r \<in> set (CodeSystem_Property_tbl t)" "pr_code r = k" "pr_id r = i"
    by (blast dest: lookup_Property_row)
  from assms(3) obtain r' where r': "r' \<in> set (CodeSystem_Property_tbl t)" "pr_code r' = k'" "pr_id r' = i"
    by (blast dest: lookup_Property_row)
  from assms(1) have "inj_on pr_id (set (CodeSystem_Property_tbl t))"
    by (simp add: distinct_map)
  with r r' have "r = r'" by (auto dest: inj_onD)
  with r r' show ?thesis by simp
qed

lemma tbl_property_row:
  assumes step: "tbl_property cs e t = (Ok u, t1)" and ext: "extends t1 t''"
  shows "(\<exists>row \<in> set (Coding_Property_tbl t1). same_key (imported_row cs e t'') row) \<and>
         (\<forall>row \<in> set (Coding_Property_tbl t1).
            row \<in> set (Coding_Property_tbl t) \<or> row = imported_row cs e t'')"
proof -
  from step have owner: "truthy_id (lookup_Coding (cs_id cs) (ip_code e) t)"
    by (auto simp add: tbl_property_def split: if_splits)
  with step obtain pid rel t_r where
    res: "tbl_resolve cs (ip_property e) t = (Ok (pid, rel), t_r)" and
    t1: "t1 = t_r\<lparr>Coding_Property_tbl := ignore_Coding_Property
            (property_row cs e (the (lookup_Coding (cs_id cs) (ip_code e) t)) pid rel t_r)
            (Coding_Property_tbl t_r)\<rparr>"
    by (auto simp add: tbl_property_def split: prod.splits result.splits)
  let ?row = "property_row cs e (the (lookup_Coding (cs_id cs) (ip_code e) t)) pid rel t_r"
  from tbl_resolve_Ok[OF res] obtain p where
    look: "lookup_Property (cs_id cs) (ip_property e) t_r = Some pid" and
    fp: "find_property cs (ip_property e) = Some p" and rel: "rel = (pd_type p = ''code'')" and
    ext_r: "extends t t_r" and cp: "Coding_Property_tbl t_r = Coding_Property_tbl t"
    by blast
  have ext1: "extends t_r t1" unfolding t1 by (rule extends_ignore) (rule extends_refl)
  have ext_t: "extends t t''" and ext_r'': "extends t_r t''"
    using ext_r ext1 ext by (blast intro: extends_trans)+
  have look'': "lookup_Property (cs_id cs) (ip_property e) t'' = Some pid"
    using ext_r'' look by (rule lookup_Property_extends)
  have row: "imported_row cs e t'' = ?row"
    by (simp add: imported_row_def property_row_def look'' relationship_def fp rel
        lookup_Coding_extends[OF ext_t] lookup_Coding_extends[OF ext_r'']
        lookup_Coding_extends[OF ext_r])
  have "\<exists>row \<in> set (Coding_Property_tbl t1). same_key ?row row"
    unfolding t1 using list_ex_same_key_ignore[of ?row "Coding_Property_tbl t_r"]
    by (simp add: list_ex_iff)
  moreover have "\<forall>row \<in> set (Coding_Property_tbl t1).
            row \<in> set (Coding_Property_tbl t) \<or> row = ?row"
    unfolding t1 by (auto simp add: ignore_Coding_Property_def cp)
  ultimately show ?thesis by (simp add: row)
qed

lemma tbl_properties_new_rows:
  "tbl_properties cs ps t = (r, t') \<Longrightarrow> extends t' t'' \<Longrightarrow>
   \<forall>row \<in> set (Coding_Property_tbl t').
     row \<in> set (Coding_Property_tbl t) \<or> (\<exists>e \<in> set ps. row = imported_row cs e t'')"
proof (induction ps arbitrary: t)
  case Nil
  then show ?case by simp
next
  case (Cons e ps)
  obtain r1 t1 where step: "tbl_property cs e t = (r1, t1)" by (cases "tbl_property cs e t")
  show ?case
  proof (cases r1)
    case (Throw err)
    with Cons.prems(1) step have "t' = t1" by simp
    moreover from step Throw have "t1 = t" by (auto dest: tbl_property_Throw)
    ultimately show ?thesis by simp
  next
    case (Ok u)
    with Cons.prems(1) step have rest: "tbl_properties cs ps t1 = (r, t')" by simp
    then have "extends t1 t'" by (rule tbl_properties_extends)
    with Cons.prems(2) have ext1: "extends t1 t''" by (blast intro: extends_trans)
    from step Ok have "tbl_property cs e t = (Ok u, t1)" by simp
    from tbl_property_row[OF this ext1] have
      one: "\<forall>row \<in> set (Coding_Property_tbl t1).
            row \<in> set (Coding_Property_tbl t) \<or> row = imported_row cs e t''"
      by blast
    from Cons.IH[OF rest Cons.prems(2)] have
      "\<forall>row \<in> set (Coding_Property_tbl t').
         row \<in> set (Coding_Property_tbl t1) \<or> (\<exists>e \<in> set ps. row = imported_row cs e t'')" .
    with one show ?thesis by auto
  qed
qed

lemma tbl_properties_has_row:
  "tbl_properties cs ps t = (Ok u, t') \<Longrightarrow> e \<in> set ps \<Longrightarrow> extends t' t'' \<Longrightarrow>
   \<exists>row \<in> set (Coding_Property_tbl t'). same_key (imported_row cs e t'') row"
proof (induction ps arbitrary: t)
  case Nil
  then show ?case by simp
next
  case (Cons e' ps)
  from Cons.prems(1) obtain u1 t1 where step: "tbl_property cs e' t = (Ok u1, t1)"
    and rest: "tbl_properties cs ps t1 = (Ok u, t')"
    by (auto split: prod.splits result.splits)
  from rest have ext: "extends t1 t'" by (rule tbl_properties_extends)
  show ?case
  proof (cases "e = e'")
    case True
    from ext Cons.prems(3) have "extends t1 t''" by (blast intro: extends_trans)
    from tbl_property_row[OF step this] True obtain row where
      "row \<in> set (Coding_Property_tbl t1)" "same_key (imported_row cs e t'') row" by blast
    moreover from ext have "set (Coding_Property_tbl t1) \<subseteq> set (Coding_Property_tbl t')"
      by (auto simp add: extends_def)
    ultimately show ?thesis by blast
  next
    case False
    with Cons.prems(2) have "e \<in> set ps" by simp
    from Cons.IH[OF rest this Cons.prems(3)] show ?thesis .
  qed
qed

lemma tbl_properties_target:
  assumes run: "tbl_properties cs ps t = (Ok u, t')"
    and ids: "distinct (map pr_id (CodeSystem_Property_tbl t))"
    and e: "e \<in> set ps"
    and new: "\<forall>row \<in> set (Coding_Property_tbl t). \<not> same_key (imported_row cs e t') row"
  shows "(\<exists>row \<in> set (Coding_Property_tbl t'). same_key (imported_row cs e t') row) \<and>
         (\<forall>row \<in> set (Coding_Property_tbl t'). same_key (imported_row cs e t') row \<longrightarrow>
            cp_target row = cp_target (imported_row cs e t'))"
proof
  show "\<exists>row \<in> set (Coding_Property_tbl t'). same_key (imported_row cs e t') row"
    using run e extends_refl by (rule tbl_properties_has_row)
  show "\<forall>row \<in> set (Coding_Property_tbl t'). same_key (imported_row cs e t') row \<longrightarrow>
            cp_target row = cp_target (imported_row cs e t')"
  proof (intro ballI impI)
    fix row assume row: "row \<in> set (Coding_Property_tbl t')"
      and key: "same_key (imported_row cs e t') row"
    from tbl_properties_new_rows[OF run extends_refl] row new key
    obtain e' where e': "e' \<in> set ps" "row = imported_row cs e' t'" by blast
    from tbl_properties_resolved[OF run e] obtain i where
      i: "lookup_Property (cs_id cs) (ip_property e) t' = Some i" by blast
    from tbl_properties_resolved[OF run e'(1)] obtain i' where
      i': "lookup_Property (cs_id cs) (ip_property e') t' = Some i'" by blast
    from key e'(2) i i' have "i' = i" and v: "ip_value e' = ip_value e"
      by (simp_all add: same_key_def imported_row_def property_row_def)
    with i i' tbl_properties_distinct[OF run ids] have "ip_property e' = ip_property e"
      by (auto intro: lookup_Property_same_id)
    with v e'(2) show "cp_target row = cp_target (imported_row cs e t')"
      by (simp add: imported_row_def property_row_def)
  qed
qed

lemma merge_Coding_ids_pos:
  "0 \<notin> cr_id ` set rows \<Longrightarrow> 0 \<notin> cr_id ` set (merge_Coding s c disp rows)"
  by (auto simp add: merge_Coding_def fresh_id_pos split: if_splits)

lemma fold_merge_ids_pos:
  "0 \<notin> cr_id ` set rows \<Longrightarrow>
   0 \<notin> cr_id ` set (fold (\<lambda>c. merge_Coding s (c_code c) (c_display c)) concepts rows)"
  by (induction concepts arbitrary: rows) (simp_all add: merge_Coding_ids_pos)

lemma merge_Coding_distinct_keys:
  assumes "distinct (map (\<lambda>r. (cr_system r, cr_code r)) rows)"
  shows "distinct (map (\<lambda>r. (cr_system r, cr_code r)) (merge_Coding s c disp rows))"
proof (cases "list_ex (coding_matches s c) rows")
  case True
  have "(\<lambda>r. (cr_system r, cr_code r)) \<circ>
          (\<lambda>r. if coding_matches s c r then r\<lparr>cr_display := disp\<rparr> else r) =
        (\<lambda>r. (cr_system r, cr_code r))"
    by (auto simp add: fun_eq_iff)
  with True assms show ?thesis by (simp add: merge_Coding_def)
next
  case False
  then have "(s, c) \<notin> (\<lambda>r. (cr_system r, cr_code r)) ` set rows"
    by (simp add: list_ex_matches_keys)
  with False assms show ?thesis by (simp add: merge_Coding_def)
qed

lemma fold_merge_distinct_keys:
  "distinct (map (\<lambda>r. (cr_system r, cr_code r)) rows) \<Longrightarrow>
   distinct (map (\<lambda>r. (cr_system r, cr_code r))
     (fold (\<lambda>c. merge_Coding s (c_code c) (c_display c)) concepts rows))"
  by (induction concepts arbitrary: rows) (simp_all add: merge_Coding_distinct_keys)

lemma lookup_Coding_row:
  "lookup_Coding s c t = Some i \<Longrightarrow>
   \<exists>r \<in> set (Coding_tbl t). cr_system r = s \<and> cr_code r = c \<and> cr_id r = i"
proof -
  assume "lookup_Coding s c t = Some i"
  then obtain r rest where "filter (coding_matches s c) (Coding_tbl t) = r # rest" and "cr_id r = i"
    by (cases "filter (coding_matches s c) (Coding_tbl t)") (auto simp add: lookup_Coding_def)
  then have "r \<in> set (filter (coding_matches s c) (Coding_tbl t))" by simp
  with \<open>cr_id r = i\<close> show ?thesis by (auto simp add: coding_matches_def)
qed

lemma distinct_keys_same_row:
  assumes "distinct (map (\<lambda>r. (cr_system r, cr_code r)) rows)"
    and "r \<in> set rows" "r' \<in> set rows"
    and "cr_system r = cr_system r'" "cr_code r = cr_code r'"
  shows "r = r'"
proof -
  from assms(1) have "inj_on (\<lambda>r. (cr_system r, cr_code r)) (set rows)"
    by (simp add: distinct_map)
  with assms(2-5) show ?thesis by (auto dest: inj_onD)
qed

text \<open>What a successful import with concepts and properties leaves in the tables.\<close>

lemma import_Ok_tables:
  assumes ok: "importCodeSystem cs (Some concepts) (Some props) d = (Ok (), d')"
  shows "tbl_properties cs props (tbl_concepts cs concepts (view d)) = (Ok (), committed d')"
    and "Coding_tbl (committed d') =
         fold (\<lambda>c. merge_Coding (cs_id cs) (c_code c) (c_display c)) concepts (Coding_tbl (view d))"
proof -
  from importCodeSystem_Ok[OF ok]
  show run: "tbl_properties cs props (tbl_concepts cs concepts (view d)) = (Ok (), committed d')"
    by (simp add: tbl_import_def)
  from tbl_properties_extends[OF run]
  show "Coding_tbl (committed d') =
         fold (\<lambda>c. merge_Coding (cs_id cs) (c_code c) (c_display c)) concepts (Coding_tbl (view d))"
    by (simp add: extends_def tbl_concepts_def)
qed

lemma import_Ok_target:
  assumes ok: "importCodeSystem cs (Some concepts) (Some props) d = (Ok (), d')"
    and ids: "distinct (map pr_id (CodeSystem_Property_tbl (view d)))"
    and e: "e \<in> set props"
    and new: "\<forall>row \<in> set (Coding_Property_tbl (view d)).
                \<not> same_key (imported_row cs e (committed d')) row"
  shows "(\<exists>row \<in> set (Coding_Property_tbl (committed d')).
            same_key (imported_row cs e (committed d')) row) \<and>
         (\<forall>row \<in> set (Coding_Property_tbl (committed d')).
            same_key (imported_row cs e (committed d')) row \<longrightarrow>
            cp_target row = cp_target (imported_row cs e (committed d')))"
proof -
  note run = import_Ok_tables(1)[OF ok]
  from ids have "distinct (map pr_id (CodeSystem_Property_tbl (tbl_concepts cs concepts (view d))))"
    by (simp add: tbl_concepts_other)
  moreover from new have "\<forall>row \<in> set (Coding_Property_tbl (tbl_concepts cs concepts (view d))).
                \<not> same_key (imported_row cs e (committed d')) row"
    by (simp add: tbl_concepts_other)
  ultimately show ?thesis using run e by (intro tbl_properties_target)
qed

section \<open>Linking a relationship to a concept of the same batch\<close>

text \<open>
  C3, as stated, fails: \<^verbatim>\<open>Coding_Property\<close> rows are inserted with \<^verbatim>\<open>ignoreOnConflict\<close> and never
  updated. After scenario S2 (B with parent A, A not yet imported) the row of (B, parent,
  "A") has no target; a later successful import that brings concept A together with the same
  property finds the row, discards its own, and the row still has no target.
\<close>

theorem intra_batch_linkage_counterexample:
  "stale_db =
     idle_db \<lparr>Coding_tbl = [\<lparr>cr_id = 1, cr_system = ''cs1'', cr_code = ''B'', cr_display = None\<rparr>],
              CodeSystem_Property_tbl =
                [\<lparr>pr_id = 1, pr_system = ''cs1'', pr_code = ''parent'', pr_type = ''code'',
                  pr_uri = Some parentProperty, pr_description = None\<rparr>],
              Coding_Property_tbl =
                [\<lparr>cp_coding = 1, cp_property = 1, cp_value = ''A'', cp_target = None\<rparr>]\<rparr> \<and>
   relationship ex_cs ''parent'' \<and>
   importCodeSystem ex_cs (Some [concept ''A'']) (Some [imported ''B'' ''parent'' ''A'']) stale_db =
     (Ok (),
      idle_db \<lparr>Coding_tbl = [\<lparr>cr_id = 1, cr_system = ''cs1'', cr_code = ''B'', cr_display = None\<rparr>,
                             \<lparr>cr_id = 2, cr_system = ''cs1'', cr_code = ''A'', cr_display = None\<rparr>],
               CodeSystem_Property_tbl =
                 [\<lparr>pr_id = 1, pr_system = ''cs1'', pr_code = ''parent'', pr_type = ''code'',
                   pr_uri = Some parentProperty, pr_description = None\<rparr>],
               Coding_Property_tbl =
                 [\<lparr>cp_coding = 1, cp_property = 1, cp_value = ''A'', cp_target = None\<rparr>]\<rparr>)"
  by (simp add: stale_db_def relationship_def eval_defs)

text \<open>
  C3, amended. Let the Coding table seen by the handle have unique (system, code) pairs and
  positive ids, and the CodeSystem_Property table unique ids. In a successful import, for
  an imported property whose resolved property is a relationship and whose value is the
  code of a concept of the same batch, wherever that concept stands in the batch: if no
  Coding_Property row with the property's (coding, property, value) key existed before the
  call, then afterwards such a row exists, and the target of every such row is the id of
  the one Coding row of that concept.
\<close>

theorem intra_batch_linkage:
  assumes ok: "importCodeSystem cs (Some concepts) (Some props) d = (Ok (), d')"
    and keys: "distinct (map (\<lambda>r. (cr_system r, cr_code r)) (Coding_tbl (view d)))"
    and pos: "0 \<notin> cr_id ` set (Coding_tbl (view d))"
    and ids: "distinct (map pr_id (CodeSystem_Property_tbl (view d)))"
    and e: "e \<in> set props"
    and rel: "relationship cs (ip_property e)"
    and c: "c \<in> set concepts" "c_code c = ip_value e"
    and new: "\<forall>row \<in> set (Coding_Property_tbl (view d)).
                \<not> same_key (imported_row cs e (committed d')) row"
  shows "\<exists>crow \<in> set (Coding_tbl (committed d')).
           cr_system crow = cs_id cs \<and> cr_code crow = c_code c \<and>
           (\<forall>crow' \<in> set (Coding_tbl (committed d')).
              cr_system crow' = cs_id cs \<and> cr_code crow' = c_code c \<longrightarrow> crow' = crow) \<and>
           (\<exists>row \<in> set (Coding_Property_tbl (committed d')).
              same_key (imported_row cs e (committed d')) row) \<and>
           (\<forall>row \<in> set (Coding_Property_tbl (committed d')).
              same_key (imported_row cs e (committed d')) row \<longrightarrow>
              cp_target row = Some (cr_id crow))"
proof -
  let ?t = "committed d'"
  note coding = import_Ok_tables(2)[OF ok]
  from c have "(cs_id cs, ip_value e) \<in> (\<lambda>c. (cs_id cs, c_code c)) ` set concepts"
    by force
  then have "(cs_id cs, ip_value e) \<in> (\<lambda>r. (cr_system r, cr_code r)) ` set (Coding_tbl ?t)"
    by (simp add: coding fold_merge_keys)
  then obtain tid where tid: "lookup_Coding (cs_id cs) (ip_value e) ?t = Some tid"
    using lookup_Coding_None[of "cs_id cs" "ip_value e" ?t] by auto
  then obtain crow where crow: "crow \<in> set (Coding_tbl ?t)" "cr_system crow = cs_id cs"
    "cr_code crow = ip_value e" "cr_id crow = tid"
    by (blast dest: lookup_Coding_row)
  from pos have "0 \<notin> cr_id ` set (Coding_tbl ?t)"
    unfolding coding by (rule fold_merge_ids_pos)
  with crow have "tid \<noteq> 0" by force
  with tid rel have target: "cp_target (imported_row cs e ?t) = Some tid"
    by (simp add: imported_row_def property_row_def)
  from keys have dk: "distinct (map (\<lambda>r. (cr_system r, cr_code r)) (Coding_tbl ?t))"
    unfolding coding by (rule fold_merge_distinct_keys)
  have only: "\<forall>crow' \<in> set (Coding_tbl ?t).
      cr_system crow' = cs_id cs \<and> cr_code crow' = c_code c \<longrightarrow> crow' = crow"
  proof (intro ballI impI)
    fix crow' assume m: "crow' \<in> set (Coding_tbl ?t)"
      and k: "cr_system crow' = cs_id cs \<and> cr_code crow' = c_code c"
    from k crow c(2) have "cr_system crow' = cr_system crow" "cr_code crow' = cr_code crow"
      by simp_all
    with dk m crow(1) show "crow' = crow" by (rule distinct_keys_same_row)
  qed
  from import_Ok_target[OF ok ids e new] have
    ex: "\<exists>row \<in> set (Coding_Property_tbl ?t). same_key (imported_row cs e ?t) row" and
    all: "\<forall>row \<in> set (Coding_Property_tbl ?t). same_key (imported_row cs e ?t) row \<longrightarrow>
            cp_target row = cp_target (imported_row cs e ?t)"
    by blast+
  from all have all': "\<forall>row \<in> set (Coding_Property_tbl ?t).
      same_key (imported_row cs e ?t) row \<longrightarrow> cp_target row = Some (cr_id crow)"
    by (simp only: target crow(4))
  have code: "cr_code crow = c_code c" using crow(3) c(2) by simp
  show ?thesis
    by (rule bexI[OF _ crow(1)]) (intro conjI crow(2) code only ex all')
qed

theorem intra_batch_linkage_witness:
  "importCodeSystem ex_cs (Some [concept ''B'', concept ''A''])
     (Some [imported ''B'' ''parent'' ''A'']) (idle_db no_tables) =
     (Ok (),
      idle_db \<lparr>Coding_tbl = [\<lparr>cr_id = 1, cr_system = ''cs1'', cr_code = ''B'', cr_display = None\<rparr>,
                             \<lparr>cr_id = 2, cr_system = ''cs1'', cr_code = ''A'', cr_display = None\<rparr>],
               CodeSystem_Property_tbl =
                 [\<lparr>pr_id = 1, pr_system = ''cs1'', pr_code = ''parent'', pr_type = ''code'',
                   pr_uri = Some parentProperty, pr_description = None\<rparr>],
               Coding_Property_tbl =
                 [\<lparr>cp_coding = 1, cp_property = 1, cp_value = ''A'', cp_target = Some 2\<rparr>]\<rparr>) \<and>
   (\<exists>crow \<in> set (Coding_tbl (committed (snd (importCodeSystem ex_cs
        (Some [concept ''B'', concept ''A'']) (Some [imported ''B'' ''parent'' ''A''])
        (idle_db no_tables))))).
      cr_code crow = ''A'' \<and>
      (\<forall>row \<in> set (Coding_Property_tbl (committed (snd (importCodeSystem ex_cs
        (Some [concept ''B'', concept ''A'']) (Some [imported ''B'' ''parent'' ''A''])
        (idle_db no_tables))))).
         same_key (imported_row ex_cs (imported ''B'' ''parent'' ''A'')
           (committed (snd (importCodeSystem ex_cs
             (Some [concept ''B'', concept ''A'']) (Some [imported ''B'' ''parent'' ''A''])
             (idle_db no_tables))))) row \<longrightarrow>
         cp_target row = Some (cr_id crow)))"
proof -
  let ?d = "idle_db no_tables"
  let ?e = "imported ''B'' ''parent'' ''A''"
  let ?run = "importCodeSystem ex_cs (Some [concept ''B'', concept ''A'']) (Some [?e]) ?d"
  have run: "?run =
     (Ok (),
      idle_db \<lparr>Coding_tbl = [\<lparr>cr_id = 1, cr_system = ''cs1'', cr_code = ''B'', cr_display = None\<rparr>,
                             \<lparr>cr_id = 2, cr_system = ''cs1'', cr_code = ''A'', cr_display = None\<rparr>],
               CodeSystem_Property_tbl =
                 [\<lparr>pr_id = 1, pr_system = ''cs1'', pr_code = ''parent'', pr_type = ''code'',
                   pr_uri = Some parentProperty, pr_description = None\<rparr>],
               Coding_Property_tbl =
                 [\<lparr>cp_coding = 1, cp_property = 1, cp_value = ''A'', cp_target = Some 2\<rparr>]\<rparr>)"
    by (simp add: eval_defs)
  then have ok: "?run = (Ok (), snd ?run)" by simp
  have h: "distinct (map (\<lambda>r. (cr_system r, cr_code r)) (Coding_tbl (view ?d)))"
    "0 \<notin> cr_id ` set (Coding_tbl (view ?d))"
    "distinct (map pr_id (CodeSystem_Property_tbl (view ?d)))"
    "?e \<in> set [?e]" "relationship ex_cs (ip_property ?e)"
    "concept ''A'' \<in> set [concept ''B'', concept ''A'']" "c_code (concept ''A'') = ip_value ?e"
    "\<forall>row \<in> set (Coding_Property_tbl (view ?d)).
                \<not> same_key (imported_row ex_cs ?e (committed (snd ?run))) row"
    by (simp_all add: relationship_def eval_defs)
  from intra_batch_linkage [OF ok h]
  have "\<exists>crow \<in> set (Coding_tbl (committed (snd ?run))).
      cr_code crow = ''A'' \<and>
      (\<forall>row \<in> set (Coding_Property_tbl (committed (snd ?run))).
         same_key (imported_row ex_cs ?e (committed (snd ?run))) row \<longrightarrow>
         cp_target row = Some (cr_id crow))"
    by (auto simp add: concept_def)
  with run show ?thesis by blast
qed

section \<open>The position of the target concept in the batch\<close>

text \<open>
  C4, as stated, fails: all concepts of the batch are written before the first property is
  processed, so the position of the target concept is irrelevant. With the concepts B, A in
  this order and the property (B, parent, "A"), the target A does not appear earlier than
  its owner B, and the row is linked to the id of A all the same.
\<close>

theorem earlier_target_counterexample:
  "\<not> appears_earlier ''A'' ''B'' [concept ''B'', concept ''A''] \<and>
   importCodeSystem ex_cs (Some [concept ''B'', concept ''A''])
     (Some [imported ''B'' ''parent'' ''A'']) (idle_db no_tables) =
     (Ok (),
      idle_db \<lparr>Coding_tbl = [\<lparr>cr_id = 1, cr_system = ''cs1'', cr_code = ''B'', cr_display = None\<rparr>,
                             \<lparr>cr_id = 2, cr_system = ''cs1'', cr_code = ''A'', cr_display = None\<rparr>],
               CodeSystem_Property_tbl =
                 [\<lparr>pr_id = 1, pr_system = ''cs1'', pr_code = ''parent'', pr_type = ''code'',
                   pr_uri = Some parentProperty, pr_description = None\<rparr>],
               Coding_Property_tbl =
                 [\<lparr>cp_coding = 1, cp_property = 1, cp_value = ''A'', cp_target = Some 2\<rparr>]\<rparr>)"
  by (simp add: appears_earlier_def eval_defs)

text \<open>
  C4, amended. Let the Coding table seen by the handle have positive ids and the
  CodeSystem_Property table unique ids. In a successful import, for an imported
  relationship property whose value is not the code of a Coding row existing before the
  call, and of whose (coding, property, value) key no Coding_Property row existed before the
  call: the row of the property exists afterwards, and its target is non-null if and only
  if the batch contains a concept with the value as code, at any position.
\<close>

theorem target_linked_iff_in_batch:
  assumes ok: "importCodeSystem cs (Some concepts) (Some props) d = (Ok (), d')"
    and pos: "0 \<notin> cr_id ` set (Coding_tbl (view d))"
    and ids: "distinct (map pr_id (CodeSystem_Property_tbl (view d)))"
    and e: "e \<in> set props"
    and rel: "relationship cs (ip_property e)"
    and absent: "(cs_id cs, ip_value e) \<notin> (\<lambda>r. (cr_system r, cr_code r)) ` set (Coding_tbl (view d))"
    and new: "\<forall>row \<in> set (Coding_Property_tbl (view d)).
                \<not> same_key (imported_row cs e (committed d')) row"
  shows "(\<exists>row \<in> set (Coding_Property_tbl (committed d')).
            same_key (imported_row cs e (committed d')) row) \<and>
         (\<forall>row \<in> set (Coding_Property_tbl (committed d')).
            same_key (imported_row cs e (committed d')) row \<longrightarrow>
            (cp_target row \<noteq> None) = (ip_value e \<in> c_code ` set concepts))"
proof -
  let ?t = "committed d'"
  note coding = import_Ok_tables(2)[OF ok]
  have target: "(cp_target (imported_row cs e ?t) \<noteq> None) = (ip_value e \<in> c_code ` set concepts)"
  proof (cases "ip_value e \<in> c_code ` set concepts")
    case True
    then have "(cs_id cs, ip_value e) \<in> (\<lambda>c. (cs_id cs, c_code c)) ` set concepts"
      by force
    then have "(cs_id cs, ip_value e) \<in> (\<lambda>r. (cr_system r, cr_code r)) ` set (Coding_tbl ?t)"
      by (simp add: coding fold_merge_keys)
    then obtain tid where tid: "lookup_Coding (cs_id cs) (ip_value e) ?t = Some tid"
      using lookup_Coding_None[of "cs_id cs" "ip_value e" ?t] by auto
    then obtain crow where "crow \<in> set (Coding_tbl ?t)" "cr_id crow = tid"
      by (blast dest: lookup_Coding_row)
    moreover from pos have "0 \<notin> cr_id ` set (Coding_tbl ?t)"
      unfolding coding by (rule fold_merge_ids_pos)
    ultimately have "tid \<noteq> 0" by force
    with tid rel True show ?thesis by (simp add: imported_row_def property_row_def)
  next
    case False
    with absent have "(cs_id cs, ip_value e) \<notin> (\<lambda>r. (cr_system r, cr_code r)) ` set (Coding_tbl ?t)"
      by (auto simp add: coding fold_merge_keys)
    then have "lookup_Coding (cs_id cs) (ip_value e) ?t = None"
      by (simp add: lookup_Coding_None)
    with False show ?thesis by (simp add: imported_row_def property_row_def)
  qed
  from import_Ok_target[OF ok ids e new] target show ?thesis by simp
qed

theorem target_linked_iff_in_batch_witness:
  "(\<exists>row \<in> set (Coding_Property_tbl (committed (snd (importCodeSystem ex_cs
        (Some [concept ''B'', concept ''A'']) (Some [imported ''B'' ''parent'' ''A''])
        (idle_db no_tables))))).
      same_key (imported_row ex_cs (imported ''B'' ''parent'' ''A'')
        (committed (snd (importCodeSystem ex_cs
          (Some [concept ''B'', concept ''A'']) (Some [imported ''B'' ''parent'' ''A''])
          (idle_db no_tables))))) row \<and>
      cp_target row \<noteq> None) \<and>
   (\<exists>row \<in> set (Coding_Property_tbl (committed (snd (importCodeSystem ex_cs
        (Some [concept ''B'']) (Some [imported ''B'' ''parent'' ''A''])
        (idle_db no_tables))))).
      same_key (imported_row ex_cs (imported ''B'' ''parent'' ''A'')
        (committed (snd (importCodeSystem ex_cs
          (Some [concept ''B'']) (Some [imported ''B'' ''parent'' ''A''])
          (idle_db no_tables))))) row \<and>
      cp_target row = None)"
proof -
  let ?d = "idle_db no_tables"
  let ?e = "imported ''B'' ''parent'' ''A''"
  let ?run1 = "importCodeSystem ex_cs (Some [concept ''B'', concept ''A'']) (Some [?e]) ?d"
  let ?run2 = "importCodeSystem ex_cs (Some [concept ''B'']) (Some [?e]) ?d"
  have ok1: "?run1 = (Ok (), snd ?run1)" and ok2: "?run2 = (Ok (), snd ?run2)"
    by (simp_all add: eval_defs)
  have h: "0 \<notin> cr_id ` set (Coding_tbl (view ?d))"
    "distinct (map pr_id (CodeSystem_Property_tbl (view ?d)))"
    "?e \<in> set [?e]" "relationship ex_cs (ip_property ?e)"
    "(cs_id ex_cs, ip_value ?e) \<notin> (\<lambda>r. (cr_system r, cr_code r)) ` set (Coding_tbl (view ?d))"
    by (simp_all add: relationship_def eval_defs)
  have n1: "\<forall>row \<in> set (Coding_Property_tbl (view ?d)).
                \<not> same_key (imported_row ex_cs ?e (committed (snd ?run1))) row"
    and n2: "\<forall>row \<in> set (Coding_Property_tbl (view ?d)).
                \<not> same_key (imported_row ex_cs ?e (committed (snd ?run2))) row"
    by (simp_all add: eval_defs)
  have in1: "ip_value ?e \<in> c_code ` set [concept ''B'', concept ''A'']"
    and in2: "ip_value ?e \<notin> c_code ` set [concept ''B'']"
    by (simp_all add: imported_def concept_def)
  note t1 = target_linked_iff_in_batch [OF ok1 h n1]
  note t2 = target_linked_iff_in_batch [OF ok2 h n2]
  from t1 [THEN conjunct2]
  have a: "\<forall>row \<in> set (Coding_Property_tbl (committed (snd ?run1))).
      same_key (imported_row ex_cs ?e (committed (snd ?run1))) row \<longrightarrow> cp_target row \<noteq> None"
    by (simp only: in1 simp_thms)
  from t2 [THEN conjunct2]
  have b: "\<forall>row \<in> set (Coding_Property_tbl (committed (snd ?run2))).
      same_key (imported_row ex_cs ?e (committed (snd ?run2))) row \<longrightarrow> cp_target row = None"
    by (simp only: in2 simp_thms)
  from t1 [THEN conjunct1] obtain row1 where
    r1: "row1 \<in> set (Coding_Property_tbl (committed (snd ?run1)))"
        "same_key (imported_row ex_cs ?e (committed (snd ?run1))) row1"
    by (rule bexE)
  from t2 [THEN conjunct1] obtain row2 where
    r2: "row2 \<in> set (Coding_Property_tbl (committed (snd ?run2)))"
        "same_key (imported_row ex_cs ?e (committed (snd ?run2))) row2"
    by (rule bexE)
  from bspec [OF a r1(1)] r1(2) have "cp_target row1 \<noteq> None" by (rule mp)
  with r1 have A: "\<exists>row \<in> set (Coding_Property_tbl (committed (snd ?run1))).
      same_key (imported_row ex_cs ?e (committed (snd ?run1))) row \<and> cp_target row \<noteq> None"
    by (intro bexI [of _ row1] conjI)
  from bspec [OF b r2(1)] r2(2) have "cp_target row2 = None" by (rule mp)
  with r2 have B: "\<exists>row \<in> set (Coding_Property_tbl (committed (snd ?run2))).
      same_key (imported_row ex_cs ?e (committed (snd ?run2))) row \<and> cp_target row = None"
    by (intro bexI [of _ row2] conjI)
  from A B show ?thesis by (rule conjI)
qed

section \<open>Unknown codes\<close>

lemma view_concepts_written:
  "view (concepts_written cs concepts d) =
   tbl_concepts cs (case concepts of None \<Rightarrow> [] | Some cs' \<Rightarrow> cs') (view d)"
proof (cases concepts)
  case None
  then show ?thesis
    by (simp add: concepts_written_def view_query_BEGIN tbl_concepts_def)
next
  case (Some cs')
  then show ?thesis
    by (cases cs')
       (simp_all add: concepts_written_def view_query_BEGIN tbl_concepts_def importConcepts_tbl
          view_put_view)
qed

lemma fst_importCodeSystem:
  "fst (importCodeSystem cs concepts properties d) =
   fst (tbl_import cs concepts properties (view d))"
proof (cases "tbl_import cs concepts properties (view d)")
  case (Pair r t')
  then show ?thesis by (cases r) (simp_all add: importCodeSystem_tbl)
qed

lemma tbl_properties_append:
  "tbl_properties cs (pre @ ps) t =
     (case tbl_properties cs pre t of
        (Throw err, t') \<Rightarrow> (Throw err, t')
      | (Ok u, t') \<Rightarrow> tbl_properties cs ps t')"
  by (induction pre arbitrary: t) (simp_all split: prod.splits result.splits)

lemma tbl_properties_Throw:
  "tbl_properties cs ps t = (Throw err, t') \<Longrightarrow>
   (\<exists>e \<in> set ps. err = BadRequest (''Unknown code: '' @ cs_url cs @ ''|'' @ ip_code e) \<and>
        \<not> truthy_id (lookup_Coding (cs_id cs) (ip_code e) t)) \<or>
   (\<exists>e \<in> set ps. err = BadRequest (''Unknown property: '' @ ip_property e))"
proof (induction ps arbitrary: t)
  case Nil
  then show ?case by simp
next
  case (Cons e ps)
  obtain r1 t1 where step: "tbl_property cs e t = (r1, t1)" by (cases "tbl_property cs e t")
  show ?case
  proof (cases r1)
    case (Throw err1)
    with Cons.prems step have err: "err = err1" by simp
    show ?thesis
    proof (cases "truthy_id (lookup_Coding (cs_id cs) (ip_code e) t)")
      case False
      with step Throw err show ?thesis by (simp add: tbl_property_def)
    next
      case True
      with step Throw obtain t_r where
        "tbl_resolve cs (ip_property e) t = (Throw err1, t_r)"
        by (auto simp add: tbl_property_def split: prod.splits result.splits)
      then have "err1 = BadRequest (''Unknown property: '' @ ip_property e)"
        by (auto dest: tbl_resolve_Throw)
      with err show ?thesis by simp
    qed
  next
    case (Ok u)
    with Cons.prems step have rest: "tbl_properties cs ps t1 = (Throw err, t')" by simp
    from step Ok have "extends t t1" by (auto intro: tbl_property_Ok)
    then have same: "\<And>c. lookup_Coding (cs_id cs) c t1 = lookup_Coding (cs_id cs) c t"
      by (rule lookup_Coding_extends)
    from Cons.IH[OF rest] show ?thesis by (auto simp add: same)
  qed
qed

lemma lookup_Coding_first:
  "first_row (filter (coding_matches s c) (Coding_tbl t)) = Some r \<Longrightarrow>
   lookup_Coding s c t = Some (cr_id r)"
  by (cases "filter (coding_matches s c) (Coding_tbl t)") (simp_all add: lookup_Coding_def)

text \<open>
  C7. For every imported property of a batch, at any position: if after the concept-writing
  pass the handle sees no Coding row with the system of the CodeSystem and the property's
  code, the import fails, with the diagnostic "Unknown code: url|code" whenever the
  properties before it are imported without error (otherwise with the error of the
  earlier property, which ends the loop). If such a row exists, with a positive id, the
  import never fails with "Unknown code" for that code, and as soon as the property and
  those before it are imported without error, the Coding_Property table has a row of the
  property's value whose coding is the id of that Coding row, whatever follows in the batch.
  The same holds for the loop body and the loop on any handle.
\<close>

theorem unknown_code_failure:
  "((\<forall>r \<in> set (Coding_tbl (view d)). \<not> (cr_system r = cs_id cs \<and> cr_code r = ip_code e)) \<longrightarrow>
      processProperty cs e cache d =
        (Throw (BadRequest (''Unknown code: '' @ cs_url cs @ ''|'' @ ip_code e)), d) \<and>
      processProperties_loop cs (e # rest) cache d =
        (Throw (BadRequest (''Unknown code: '' @ cs_url cs @ ''|'' @ ip_code e)), d) \<and>
      fst (processProperties (pre @ e # rest) cs d) =
        (case fst (processProperties pre cs d) of
           Throw err \<Rightarrow> Throw err
         | Ok u \<Rightarrow> Throw (BadRequest (''Unknown code: '' @ cs_url cs @ ''|'' @ ip_code e)))) \<and>
   ((\<forall>r \<in> set (Coding_tbl (view (concepts_written cs concepts d))).
        \<not> (cr_system r = cs_id cs \<and> cr_code r = ip_code e)) \<longrightarrow>
      fst (importCodeSystem cs concepts (Some (pre @ e # rest)) d) =
        (case fst (importCodeSystem cs concepts (Some pre) d) of
           Throw err \<Rightarrow> Throw err
         | Ok u \<Rightarrow> Throw (BadRequest (''Unknown code: '' @ cs_url cs @ ''|'' @ ip_code e)))) \<and>
   (first_row (filter (coding_matches (cs_id cs) (ip_code e)) (Coding_tbl (view d))) = Some r \<and>
    cr_id r \<noteq> 0 \<longrightarrow>
      (case processProperty cs e cache d of
         (Throw err, d') \<Rightarrow> err = BadRequest (''Unknown property: '' @ ip_property e) \<and> d' = d
       | (Ok cache', d') \<Rightarrow>
           (\<exists>row \<in> set (Coding_Property_tbl (view d')).
              cp_coding row = cr_id r \<and> cp_value row = ip_value e))) \<and>
   (first_row (filter (coding_matches (cs_id cs) (ip_code e))
       (Coding_tbl (view (concepts_written cs concepts d)))) = Some r \<and> cr_id r \<noteq> 0 \<longrightarrow>
      fst (importCodeSystem cs concepts (Some (pre @ e # rest)) d) \<noteq>
        Throw (BadRequest (''Unknown code: '' @ cs_url cs @ ''|'' @ ip_code e)) \<and>
      (fst (importCodeSystem cs concepts (Some (pre @ [e])) d) = Ok () \<longrightarrow>
         (\<exists>row \<in> set (Coding_Property_tbl
              (view (snd (importCodeSystem cs concepts (Some (pre @ e # rest)) d)))).
            cp_coding row = cr_id r \<and> cp_value row = ip_value e)))"
proof (intro conjI impI)
  assume none: "\<forall>r \<in> set (Coding_tbl (view d)). \<not> (cr_system r = cs_id cs \<and> cr_code r = ip_code e)"
  then have look: "lookup_Coding (cs_id cs) (ip_code e) (view d) = None"
    by (auto simp add: lookup_Coding_None)
  then show step: "processProperty cs e cache d =
        (Throw (BadRequest (''Unknown code: '' @ cs_url cs @ ''|'' @ ip_code e)), d)"
    by (simp add: processProperty_def select_Coding_id_view)
  then show "processProperties_loop cs (e # rest) cache d =
        (Throw (BadRequest (''Unknown code: '' @ cs_url cs @ ''|'' @ ip_code e)), d)"
    by simp
  obtain r0 t0 where pre: "tbl_properties cs pre (view d) = (r0, t0)"
    by (cases "tbl_properties cs pre (view d)")
  from tbl_properties_extends[OF pre] look
  have "lookup_Coding (cs_id cs) (ip_code e) t0 = None"
    by (simp add: lookup_Coding_extends)
  then show "fst (processProperties (pre @ e # rest) cs d) =
        (case fst (processProperties pre cs d) of
           Throw err \<Rightarrow> Throw err
         | Ok u \<Rightarrow> Throw (BadRequest (''Unknown code: '' @ cs_url cs @ ''|'' @ ip_code e)))"
    by (cases r0)
       (simp_all add: processProperties_tbl tbl_properties_append pre tbl_property_def)
next
  let ?t = "tbl_concepts cs (case concepts of None \<Rightarrow> [] | Some cs' \<Rightarrow> cs') (view d)"
  assume "\<forall>r \<in> set (Coding_tbl (view (concepts_written cs concepts d))).
        \<not> (cr_system r = cs_id cs \<and> cr_code r = ip_code e)"
  then have look: "lookup_Coding (cs_id cs) (ip_code e) ?t = None"
    by (auto simp add: lookup_Coding_None view_concepts_written)
  obtain r0 t0 where pre: "tbl_properties cs pre ?t = (r0, t0)"
    by (cases "tbl_properties cs pre ?t")
  from tbl_properties_extends[OF pre] look
  have "lookup_Coding (cs_id cs) (ip_code e) t0 = None"
    by (simp add: lookup_Coding_extends)
  then show "fst (importCodeSystem cs concepts (Some (pre @ e # rest)) d) =
        (case fst (importCodeSystem cs concepts (Some pre) d) of
           Throw err \<Rightarrow> Throw err
         | Ok u \<Rightarrow> Throw (BadRequest (''Unknown code: '' @ cs_url cs @ ''|'' @ ip_code e)))"
    by (cases r0)
       (simp_all add: fst_importCodeSystem tbl_import_def tbl_properties_append pre
          tbl_property_def)
next
  assume "first_row (filter (coding_matches (cs_id cs) (ip_code e)) (Coding_tbl (view d))) = Some r \<and>
    cr_id r \<noteq> 0"
  then have look: "lookup_Coding (cs_id cs) (ip_code e) (view d) = Some (cr_id r)" and pos: "cr_id r \<noteq> 0"
    by (simp_all add: lookup_Coding_first)
  obtain res d1 where cr: "cached_resolve cs (ip_property e) cache d = (res, d1)"
    by (cases "cached_resolve cs (ip_property e) cache d")
  show "case processProperty cs e cache d of
         (Throw err, d') \<Rightarrow> err = BadRequest (''Unknown property: '' @ ip_property e) \<and> d' = d
       | (Ok cache', d') \<Rightarrow>
           (\<exists>row \<in> set (Coding_Property_tbl (view d')).
              cp_coding row = cr_id r \<and> cp_value row = ip_value e)"
  proof (cases res)
    case (Throw err)
    with cr cached_resolve_Throw[of cs "ip_property e" cache d err d1] look pos
    show ?thesis
      by (simp add: processProperty_def select_Coding_id_view)
  next
    case (Ok v)
    obtain pid rel cache' where v: "v = ((pid, rel), cache')" by (cases v) auto
    let ?row = "\<lparr>cp_coding = cr_id r, cp_property = pid, cp_value = ip_value e,
        cp_target = (if truthy_id (if rel then lookup_Coding (cs_id cs) (ip_value e) (view d1) else None)
                     then (if rel then lookup_Coding (cs_id cs) (ip_value e) (view d1) else None)
                     else None)\<rparr>"
    have "processProperty cs e cache d = (Ok cache', insert_Coding_Property_ignore ?row d1)"
      using Ok v cr look pos by (simp add: processProperty_def select_Coding_id_view Let_def)
    moreover from ignore_Coding_Property_has_key[of ?row "Coding_Property_tbl (view d1)"]
    have "\<exists>row \<in> set (Coding_Property_tbl (view (insert_Coding_Property_ignore ?row d1))).
              cp_coding row = cr_id r \<and> cp_value row = ip_value e"
      by (auto simp add: insert_Coding_Property_ignore_def view_exec_write same_key_def)
    ultimately show ?thesis by simp
  qed
next
  let ?t = "tbl_concepts cs (case concepts of None \<Rightarrow> [] | Some cs' \<Rightarrow> cs') (view d)"
  assume "first_row (filter (coding_matches (cs_id cs) (ip_code e))
       (Coding_tbl (view (concepts_written cs concepts d)))) = Some r \<and> cr_id r \<noteq> 0"
  then have look: "lookup_Coding (cs_id cs) (ip_code e) ?t = Some (cr_id r)" and pos: "cr_id r \<noteq> 0"
    by (simp_all add: lookup_Coding_first view_concepts_written)
  show "fst (importCodeSystem cs concepts (Some (pre @ e # rest)) d) \<noteq>
        Throw (BadRequest (''Unknown code: '' @ cs_url cs @ ''|'' @ ip_code e))"
  proof
    assume thrown: "fst (importCodeSystem cs concepts (Some (pre @ e # rest)) d) =
        Throw (BadRequest (''Unknown code: '' @ cs_url cs @ ''|'' @ ip_code e))"
    then obtain t' where "tbl_properties cs (pre @ e # rest) ?t =
        (Throw (BadRequest (''Unknown code: '' @ cs_url cs @ ''|'' @ ip_code e)), t')"
      by (cases "tbl_properties cs (pre @ e # rest) ?t")
         (simp add: fst_importCodeSystem tbl_import_def)
    from tbl_properties_Throw[OF this] look pos show False by auto
  qed
  assume ok: "fst (importCodeSystem cs concepts (Some (pre @ [e])) d) = Ok ()"
  then obtain t1 where upto: "tbl_properties cs (pre @ [e]) ?t = (Ok (), t1)"
    by (cases "tbl_properties cs (pre @ [e]) ?t") (simp add: fst_importCodeSystem tbl_import_def)
  then obtain u0 t0 where pre: "tbl_properties cs pre ?t = (Ok u0, t0)"
    and step: "tbl_property cs e t0 = (Ok (), t1)"
    by (auto simp add: tbl_properties_append split: prod.splits result.splits)
  obtain r2 t2 where rest: "tbl_properties cs rest t1 = (r2, t2)"
    by (cases "tbl_properties cs rest t1")
  have whole: "tbl_properties cs (pre @ e # rest) ?t = (r2, t2)"
    by (simp add: tbl_properties_append pre step rest)
  from tbl_property_row[OF step extends_refl] obtain row where
    row: "row \<in> set (Coding_Property_tbl t1)" "same_key (imported_row cs e t1) row"
    by blast
  have "extends ?t t1"
    using tbl_properties_extends[OF upto] .
  then have "lookup_Coding (cs_id cs) (ip_code e) t1 = Some (cr_id r)"
    using look by (simp add: lookup_Coding_extends)
  with row(2) have key: "cp_coding row = cr_id r \<and> cp_value row = ip_value e"
    by (simp add: same_key_def imported_row_def property_row_def)
  from tbl_properties_extends[OF rest] row(1) have "row \<in> set (Coding_Property_tbl t2)"
    by (auto simp add: extends_def)
  with key show "\<exists>row \<in> set (Coding_Property_tbl
              (view (snd (importCodeSystem cs concepts (Some (pre @ e # rest)) d)))).
            cp_coding row = cr_id r \<and> cp_value row = ip_value e"
    by (auto simp add: view_importCodeSystem tbl_import_def whole)
qed

theorem unknown_code_failure_witness:
  "fst (importCodeSystem ex_cs (Some [concept ''A''])
          (Some [imported ''A'' ''parent'' ''A'', imported ''X'' ''parent'' ''A''])
          (idle_db no_tables)) = Throw (BadRequest ''Unknown code: http://ex/cs|X'') \<and>
   (\<exists>row \<in> set (Coding_Property_tbl (view (snd (importCodeSystem ex_cs (Some [concept ''A''])
          (Some [imported ''A'' ''parent'' ''A'', imported ''X'' ''parent'' ''A''])
          (idle_db no_tables))))).
      cp_coding row = 1 \<and> cp_value row = ''A'')"
proof -
  let ?d = "idle_db no_tables"
  let ?a = "imported ''A'' ''parent'' ''A''"
  let ?x = "imported ''X'' ''parent'' ''A''"
  have written: "view (concepts_written ex_cs (Some [concept ''A'']) ?d) =
      no_tables\<lparr>Coding_tbl := [row_A]\<rparr>"
    by (simp add: concepts_written_def eval_defs)
  have nox: "\<forall>r \<in> set (Coding_tbl (view (concepts_written ex_cs (Some [concept ''A'']) ?d))).
        \<not> (cr_system r = cs_id ex_cs \<and> cr_code r = ip_code ?x)"
    unfolding written by (simp add: eval_defs)
  have before: "fst (importCodeSystem ex_cs (Some [concept ''A'']) (Some [?a]) ?d) = Ok ()"
    by (simp add: eval_defs)
  have hasa: "first_row (filter (coding_matches (cs_id ex_cs) (ip_code ?a))
       (Coding_tbl (view (concepts_written ex_cs (Some [concept ''A'']) ?d)))) = Some row_A \<and>
      cr_id row_A \<noteq> 0"
    unfolding written by (simp add: eval_defs)
  note neg = unknown_code_failure [of ?d ex_cs ?x Map.empty "[]" "[?a]" "Some [concept ''A'']" row_A,
      THEN conjunct2, THEN conjunct1, THEN mp, OF nox]
  have 1: "fst (importCodeSystem ex_cs (Some [concept ''A'']) (Some [?a, ?x]) ?d) =
      Throw (BadRequest ''Unknown code: http://ex/cs|X'')"
    using neg before by (simp add: ex_cs_def imported_def)
  note pos = unknown_code_failure [of ?d ex_cs ?a Map.empty "[?x]" "[]" "Some [concept ''A'']" row_A,
      THEN conjunct2, THEN conjunct2, THEN conjunct2, THEN mp, OF hasa, THEN conjunct2, THEN mp]
  have 2: "\<exists>row \<in> set (Coding_Property_tbl (view (snd (importCodeSystem ex_cs
          (Some [concept ''A'']) (Some [?a, ?x]) ?d)))).
      cp_coding row = 1 \<and> cp_value row = ''A''"
    using pos before by (simp add: row_A_def imported_def)
  from 1 2 show ?thesis by (rule conjI)
qed

section \<open>Order of the concepts\<close>

lemma merge_Coding_triples:
  "coding_triples (merge_Coding s c disp rows) = merge_triples s c disp (coding_triples rows)"
proof -
  let ?proj = "\<lambda>r. (cr_system r, cr_code r, cr_display r)"
  have keys: "(\<lambda>x. (fst x, fst (snd x))) ` set_mset (coding_triples rows) =
              (\<lambda>r. (cr_system r, cr_code r)) ` set rows"
    by (auto simp add: coding_triples_def image_iff)
  show ?thesis
  proof (cases "list_ex (coding_matches s c) rows")
    case True
    have "map ?proj (map (\<lambda>r. if coding_matches s c r then r\<lparr>cr_display := disp\<rparr> else r) rows) =
          map (\<lambda>x. if fst x = s \<and> fst (snd x) = c then (s, c, disp) else x) (map ?proj rows)"
      by (induction rows) (auto simp add: coding_matches_def)
    then have "coding_triples (map (\<lambda>r. if coding_matches s c r then r\<lparr>cr_display := disp\<rparr> else r) rows) =
          image_mset (\<lambda>x. if fst x = s \<and> fst (snd x) = c then (s, c, disp) else x) (coding_triples rows)"
      unfolding coding_triples_def by (simp only: mset_map)
    with True show ?thesis
      by (simp add: merge_Coding_def merge_triples_def keys list_ex_matches_keys)
  next
    case False
    then have nk: "(s, c) \<notin> (\<lambda>x. (fst x, fst (snd x))) ` set_mset (coding_triples rows)"
      by (simp add: keys list_ex_matches_keys)
    have "coding_triples (rows @ [\<lparr>cr_id = fresh_id (map cr_id rows), cr_system = s, cr_code = c,
                    cr_display = disp\<rparr>]) = add_mset (s, c, disp) (coding_triples rows)"
      by (simp add: coding_triples_def)
    with False nk show ?thesis
      by (simp add: merge_Coding_def merge_triples_def)
  qed
qed

lemma fold_merge_triples:
  "coding_triples (fold (\<lambda>c. merge_Coding s (c_code c) (c_display c)) concepts rows) =
   fold (\<lambda>c. merge_triples s (c_code c) (c_display c)) concepts (coding_triples rows)"
  by (induction concepts arbitrary: rows) (simp_all add: merge_Coding_triples)

lemma merge_triples_keys:
  "(\<lambda>x. (fst x, fst (snd x))) ` set_mset (merge_triples s c disp M) =
   insert (s, c) ((\<lambda>x. (fst x, fst (snd x))) ` set_mset M)"
proof (cases "(s, c) \<in> (\<lambda>x. (fst x, fst (snd x))) ` set_mset M")
  case True
  have "(\<lambda>x. (fst x, fst (snd x))) \<circ>
          (\<lambda>x. if fst x = s \<and> fst (snd x) = c then (s, c, disp) else x) =
        (\<lambda>x::string \<times> string \<times> string option. (fst x, fst (snd x)))"
    by (auto simp add: fun_eq_iff)
  then have "(\<lambda>x. (fst x, fst (snd x))) `
          (\<lambda>x. if fst x = s \<and> fst (snd x) = c then (s, c, disp) else x) ` set_mset M =
        (\<lambda>x. (fst x, fst (snd x))) ` set_mset M"
    by (simp only: image_comp)
  with True show ?thesis by (simp add: merge_triples_def insert_absorb)
next
  case False
  then show ?thesis by (simp add: merge_triples_def)
qed

lemma merge_triples_commute:
  assumes "c1 \<noteq> c2"
  shows "merge_triples s c1 d1 (merge_triples s c2 d2 M) =
         merge_triples s c2 d2 (merge_triples s c1 d1 M)"
proof -
  let ?K = "\<lambda>M. (\<lambda>x. (fst x, fst (snd x))) ` set_mset M"
  let ?u1 = "\<lambda>x. if fst x = s \<and> fst (snd x) = c1 then (s, c1, d1) else x"
  let ?u2 = "\<lambda>x. if fst x = s \<and> fst (snd x) = c2 then (s, c2, d2) else x"
  have k12: "((s, c1) \<in> ?K (merge_triples s c2 d2 M)) = ((s, c1) \<in> ?K M)"
    using assms by (simp add: merge_triples_keys)
  have k21: "((s, c2) \<in> ?K (merge_triples s c1 d1 M)) = ((s, c2) \<in> ?K M)"
    using assms by (simp add: merge_triples_keys)
  have comm: "image_mset ?u1 (image_mset ?u2 M) = image_mset ?u2 (image_mset ?u1 M)"
    using assms by (simp add: multiset.map_comp comp_def) (rule image_mset_cong, auto)
  have u1_new: "?u1 (s, c2, d2) = (s, c2, d2)" and u2_new: "?u2 (s, c1, d1) = (s, c1, d1)"
    using assms by simp_all
  show ?thesis
  proof (cases "(s, c1) \<in> ?K M"; cases "(s, c2) \<in> ?K M")
    assume a: "(s, c1) \<in> ?K M" "(s, c2) \<in> ?K M"
    with k12 k21 have "(s, c1) \<in> ?K (merge_triples s c2 d2 M)" "(s, c2) \<in> ?K (merge_triples s c1 d1 M)"
      by simp_all
    then have "merge_triples s c1 d1 (merge_triples s c2 d2 M) = image_mset ?u1 (merge_triples s c2 d2 M)"
      and "merge_triples s c2 d2 (merge_triples s c1 d1 M) = image_mset ?u2 (merge_triples s c1 d1 M)"
      by (simp_all add: merge_triples_def[of s c1 d1 "merge_triples s c2 d2 M"]
          merge_triples_def[of s c2 d2 "merge_triples s c1 d1 M"])
    moreover from a have "merge_triples s c2 d2 M = image_mset ?u2 M"
      and "merge_triples s c1 d1 M = image_mset ?u1 M"
      by (simp_all add: merge_triples_def)
    ultimately show ?thesis using comm by simp
  next
    assume a: "(s, c1) \<in> ?K M" "(s, c2) \<notin> ?K M"
    with k12 k21 have "(s, c1) \<in> ?K (merge_triples s c2 d2 M)" "(s, c2) \<notin> ?K (merge_triples s c1 d1 M)"
      by simp_all
    then have "merge_triples s c1 d1 (merge_triples s c2 d2 M) = image_mset ?u1 (merge_triples s c2 d2 M)"
      and "merge_triples s c2 d2 (merge_triples s c1 d1 M) = add_mset (s, c2, d2) (merge_triples s c1 d1 M)"
      by (simp_all add: merge_triples_def[of s c1 d1 "merge_triples s c2 d2 M"]
          merge_triples_def[of s c2 d2 "merge_triples s c1 d1 M"])
    moreover from a have "merge_triples s c2 d2 M = add_mset (s, c2, d2) M"
      and "merge_triples s c1 d1 M = image_mset ?u1 M"
      by (simp_all add: merge_triples_def)
    ultimately show ?thesis using u1_new by simp
  next
    assume a: "(s, c1) \<notin> ?K M" "(s, c2) \<in> ?K M"
    with k12 k21 have "(s, c1) \<notin> ?K (merge_triples s c2 d2 M)" "(s, c2) \<in> ?K (merge_triples s c1 d1 M)"
      by simp_all
    then have "merge_triples s c1 d1 (merge_triples s c2 d2 M) = add_mset (s, c1, d1) (merge_triples s c2 d2 M)"
      and "merge_triples s c2 d2 (merge_triples s c1 d1 M) = image_mset ?u2 (merge_triples s c1 d1 M)"
      by (simp_all add: merge_triples_def[of s c1 d1 "merge_triples s c2 d2 M"]
          merge_triples_def[of s c2 d2 "merge_triples s c1 d1 M"])
    moreover from a have "merge_triples s c2 d2 M = image_mset ?u2 M"
      and "merge_triples s c1 d1 M = add_mset (s, c1, d1) M"
      by (simp_all add: merge_triples_def)
    ultimately show ?thesis using u2_new by simp
  next
    assume a: "(s, c1) \<notin> ?K M" "(s, c2) \<notin> ?K M"
    with k12 k21 have "(s, c1) \<notin> ?K (merge_triples s c2 d2 M)" "(s, c2) \<notin> ?K (merge_triples s c1 d1 M)"
      by simp_all
    then have "merge_triples s c1 d1 (merge_triples s c2 d2 M) = add_mset (s, c1, d1) (merge_triples s c2 d2 M)"
      and "merge_triples s c2 d2 (merge_triples s c1 d1 M) = add_mset (s, c2, d2) (merge_triples s c1 d1 M)"
      by (simp_all add: merge_triples_def[of s c1 d1 "merge_triples s c2 d2 M"]
          merge_triples_def[of s c2 d2 "merge_triples s c1 d1 M"])
    moreover from a have "merge_triples s c2 d2 M = add_mset (s, c2, d2) M"
      and "merge_triples s c1 d1 M = add_mset (s, c1, d1) M"
      by (simp_all add: merge_triples_def)
    ultimately show ?thesis by simp
  qed
qed

lemma fold_merge_triples_perm:
  assumes dist: "distinct (map c_code concepts)" and perm: "mset concepts' = mset concepts"
  shows "fold (\<lambda>c. merge_triples s (c_code c) (c_display c)) concepts' M =
         fold (\<lambda>c. merge_triples s (c_code c) (c_display c)) concepts M"
proof -
  from dist have inj: "inj_on c_code (set concepts)" by (simp add: distinct_map)
  have "fold (\<lambda>c. merge_triples s (c_code c) (c_display c)) concepts =
        fold (\<lambda>c. merge_triples s (c_code c) (c_display c)) concepts'"
  proof (rule fold_multiset_equiv)
    fix x y assume "x \<in> set concepts" "y \<in> set concepts"
    show "merge_triples s (c_code x) (c_display x) \<circ> merge_triples s (c_code y) (c_display y) =
          merge_triples s (c_code y) (c_display y) \<circ> merge_triples s (c_code x) (c_display x)"
    proof (cases "x = y")
      case True
      then show ?thesis by simp
    next
      case False
      with inj \<open>x \<in> set concepts\<close> \<open>y \<in> set concepts\<close> have "c_code x \<noteq> c_code y"
        by (auto dest: inj_onD)
      then show ?thesis
        by (intro ext) (unfold comp_apply, rule merge_triples_commute)
    qed
  next
    from perm show "mset concepts = mset concepts'" by simp
  qed
  then show ?thesis by simp
qed

lemma fold_update_last:
  assumes "cr_system r = s" and "cr_code r \<in> c_code ` set concepts"
  shows "cr_display (fold (\<lambda>c r. if coding_matches s (c_code c) r then r\<lparr>cr_display := c_display c\<rparr> else r)
           concepts r) = last_display concepts (cr_code r)"
  using assms(2)
proof (induction concepts rule: rev_induct)
  case Nil
  then show ?case by simp
next
  case (snoc c concepts)
  let ?U = "\<lambda>c r. if coding_matches s (c_code c) r then r\<lparr>cr_display := c_display c\<rparr> else r"
  from fold_update_display[of s concepts r] obtain x where
    f: "fold ?U concepts r = r\<lparr>cr_display := x\<rparr>" by blast
  show ?case
  proof (cases "c_code c = cr_code r")
    case True
    with assms(1) f show ?thesis
      by (simp add: coding_matches_def last_display_def)
  next
    case False
    with snoc.prems have "cr_code r \<in> c_code ` set concepts" by auto
    from snoc.IH[OF this] False assms(1) f show ?thesis
      by (simp add: coding_matches_def last_display_def)
  qed
qed

lemma fold_merge_last:
  assumes "r \<in> set (fold (\<lambda>c. merge_Coding s (c_code c) (c_display c)) concepts rows)"
    and "cr_system r = s" and "cr_code r \<in> c_code ` set concepts"
  shows "cr_display r = last_display concepts (cr_code r)"
proof -
  from fold_merge_settled[of s concepts rows] assms(1)
  have "fold (\<lambda>c r. if coding_matches s (c_code c) r then r\<lparr>cr_display := c_display c\<rparr> else r)
          concepts r = r" by blast
  with fold_update_last[OF assms(2,3)] show ?thesis by simp
qed

text \<open>
  C8, as stated, fails: the merging insert overwrites the display, so the last concept of
  a code wins, and the server numbers new rows in the order of their arrival. Importing A
  with display "x" and then A with display "y" leaves display "y", the other order leaves
  "x"; importing A, B into an empty table gives A the id 1, the other order gives B the
  id 1.
\<close>

theorem concept_order_counterexample:
  "mset [concept_named ''A'' ''y'', concept_named ''A'' ''x''] =
     mset [concept_named ''A'' ''x'', concept_named ''A'' ''y''] \<and>
   Coding_tbl (view (snd (importCodeSystem ex_cs
       (Some [concept_named ''A'' ''x'', concept_named ''A'' ''y'']) None (idle_db no_tables)))) =
     [\<lparr>cr_id = 1, cr_system = ''cs1'', cr_code = ''A'', cr_display = Some ''y''\<rparr>] \<and>
   Coding_tbl (view (snd (importCodeSystem ex_cs
       (Some [concept_named ''A'' ''y'', concept_named ''A'' ''x'']) None (idle_db no_tables)))) =
     [\<lparr>cr_id = 1, cr_system = ''cs1'', cr_code = ''A'', cr_display = Some ''x''\<rparr>] \<and>
   Coding_tbl (view (snd (importCodeSystem ex_cs
       (Some [concept_named ''A'' ''x'', concept_named ''A'' ''y'']) None (idle_db no_tables)))) \<noteq>
   Coding_tbl (view (snd (importCodeSystem ex_cs
       (Some [concept_named ''A'' ''y'', concept_named ''A'' ''x'']) None (idle_db no_tables)))) \<and>
   mset [concept ''B'', concept ''A''] = mset [concept ''A'', concept ''B''] \<and>
   Coding_tbl (view (snd (importCodeSystem ex_cs
       (Some [concept ''A'', concept ''B'']) None (idle_db no_tables)))) =
     [\<lparr>cr_id = 1, cr_system = ''cs1'', cr_code = ''A'', cr_display = None\<rparr>,
      \<lparr>cr_id = 2, cr_system = ''cs1'', cr_code = ''B'', cr_display = None\<rparr>] \<and>
   Coding_tbl (view (snd (importCodeSystem ex_cs
       (Some [concept ''B'', concept ''A'']) None (idle_db no_tables)))) =
     [\<lparr>cr_id = 1, cr_system = ''cs1'', cr_code = ''B'', cr_display = None\<rparr>,
      \<lparr>cr_id = 2, cr_system = ''cs1'', cr_code = ''A'', cr_display = None\<rparr>] \<and>
   Coding_tbl (view (snd (importCodeSystem ex_cs
       (Some [concept ''A'', concept ''B'']) None (idle_db no_tables)))) \<noteq>
   Coding_tbl (view (snd (importCodeSystem ex_cs
       (Some [concept ''B'', concept ''A'']) None (idle_db no_tables))))"
  by (simp add: eval_defs concept_named_def)

text \<open>
  C8, amended. For every CodeSystem, every handle and every property batch: a permutation
  of the concept batch gives a Coding table with the same (system, code) pairs; when the
  codes of the batch are pairwise distinct, it gives the same table up to the
  server-assigned ids and the order of the rows, that is the same (system, code, display)
  triples, each as often as in the other table; and after the import of any batch, every
  Coding row of the CodeSystem whose code occurs in the batch has the display of the last
  concept of the batch with that code.
\<close>

theorem concept_order_independence:
  assumes perm: "mset concepts' = mset concepts"
  shows "(\<lambda>r. (cr_system r, cr_code r)) `
           set (Coding_tbl (view (snd (importCodeSystem cs (Some concepts') properties d)))) =
         (\<lambda>r. (cr_system r, cr_code r)) `
           set (Coding_tbl (view (snd (importCodeSystem cs (Some concepts) properties d)))) \<and>
         (distinct (map c_code concepts) \<longrightarrow>
           coding_content (Coding_tbl (view (snd (importCodeSystem cs (Some concepts') properties d)))) =
           coding_content (Coding_tbl (view (snd (importCodeSystem cs (Some concepts) properties d)))) \<and>
           coding_triples (Coding_tbl (view (snd (importCodeSystem cs (Some concepts') properties d)))) =
           coding_triples (Coding_tbl (view (snd (importCodeSystem cs (Some concepts) properties d))))) \<and>
         (\<forall>r \<in> set (Coding_tbl (view (snd (importCodeSystem cs (Some concepts) properties d)))).
            cr_system r = cs_id cs \<and> cr_code r \<in> c_code ` set concepts \<longrightarrow>
            cr_display r = last_display concepts (cr_code r))"
proof (intro conjI impI ballI)
  from perm have s: "set concepts' = set concepts" by (rule mset_eq_setD)
  from perm have "mset (map c_code concepts') = mset (map c_code concepts)" by simp
  then have dist: "distinct (map c_code concepts') = distinct (map c_code concepts)"
    by (rule mset_eq_imp_distinct_iff)
  show "(\<lambda>r. (cr_system r, cr_code r)) `
           set (Coding_tbl (view (snd (importCodeSystem cs (Some concepts') properties d)))) =
         (\<lambda>r. (cr_system r, cr_code r)) `
           set (Coding_tbl (view (snd (importCodeSystem cs (Some concepts) properties d))))"
    by (simp add: view_importCodeSystem Coding_tbl_import fold_merge_keys s)
  assume d: "distinct (map c_code concepts)"
  with dist show "coding_content (Coding_tbl (view (snd (importCodeSystem cs (Some concepts') properties d)))) =
           coding_content (Coding_tbl (view (snd (importCodeSystem cs (Some concepts) properties d))))"
    by (simp add: view_importCodeSystem Coding_tbl_import fold_merge_content s)
  show "coding_triples (Coding_tbl (view (snd (importCodeSystem cs (Some concepts') properties d)))) =
           coding_triples (Coding_tbl (view (snd (importCodeSystem cs (Some concepts) properties d))))"
    unfolding view_importCodeSystem Coding_tbl_import option.case fold_merge_triples
    using d perm by (rule fold_merge_triples_perm)
next
  fix r
  assume "r \<in> set (Coding_tbl (view (snd (importCodeSystem cs (Some concepts) properties d))))"
    and "cr_system r = cs_id cs \<and> cr_code r \<in> c_code ` set concepts"
  then have "r \<in> set (fold (\<lambda>c. merge_Coding (cs_id cs) (c_code c) (c_display c)) concepts
        (Coding_tbl (view d)))"
    and "cr_system r = cs_id cs" and "cr_code r \<in> c_code ` set concepts"
    by (simp_all add: view_importCodeSystem Coding_tbl_import)
  then show "cr_display r = last_display concepts (cr_code r)"
    by (rule fold_merge_last)
qed

theorem concept_order_independence_witness:
  "coding_triples (Coding_tbl (view (snd (importCodeSystem ex_cs
       (Some [concept ''B'', concept ''A'']) None (idle_db no_tables))))) =
   coding_triples (Coding_tbl (view (snd (importCodeSystem ex_cs
       (Some [concept ''A'', concept ''B'']) None (idle_db no_tables))))) \<and>
   (\<exists>r \<in> set (Coding_tbl (view (snd (importCodeSystem ex_cs
       (Some [concept_named ''A'' ''x'', concept_named ''A'' ''y'']) None (idle_db no_tables))))).
      cr_code r = ''A'' \<and> cr_display r = Some ''y'')"
proof -
  let ?d = "idle_db no_tables"
  have perm: "mset [concept ''B'', concept ''A''] = mset [concept ''A'', concept ''B'']"
    by simp
  have dist: "distinct (map c_code [concept ''A'', concept ''B''])"
    by (simp add: concept_def)
  note t1 = concept_order_independence [OF perm, of ex_cs None ?d, THEN conjunct2, THEN conjunct1,
      THEN mp, OF dist, THEN conjunct2]
  let ?xy = "[concept_named ''A'' ''x'', concept_named ''A'' ''y'']"
  let ?row = "\<lparr>cr_id = 1, cr_system = ''cs1'', cr_code = ''A'', cr_display = Some ''y''\<rparr>"
  have tbl: "Coding_tbl (view (snd (importCodeSystem ex_cs (Some ?xy) None ?d))) = [?row]"
    by (simp add: eval_defs concept_named_def)
  then have mem: "?row \<in> set (Coding_tbl (view (snd (importCodeSystem ex_cs (Some ?xy) None ?d))))"
    by simp
  have cond: "cr_system ?row = cs_id ex_cs \<and> cr_code ?row \<in> c_code ` set ?xy"
    by (simp add: ex_cs_def concept_named_def)
  have all: "\<forall>r \<in> set (Coding_tbl (view (snd (importCodeSystem ex_cs (Some ?xy) None ?d)))).
            cr_system r = cs_id ex_cs \<and> cr_code r \<in> c_code ` set ?xy \<longrightarrow>
            cr_display r = last_display ?xy (cr_code r)"
    using concept_order_independence [of ?xy ?xy ex_cs None ?d, OF refl]
    by (rule conjunct2 [THEN conjunct2])
  from bspec [OF all mem] cond have t2: "cr_display ?row = last_display ?xy (cr_code ?row)"
    by (rule mp)
  have ld: "last_display ?xy (cr_code ?row) = Some ''y''"
    by (simp add: last_display_def concept_named_def)
  from t2 have d: "cr_display ?row = Some ''y''" unfolding ld .
  have c: "cr_code ?row = ''A''" by simp
  from c d have both: "cr_code ?row = ''A'' \<and> cr_display ?row = Some ''y''" by (rule conjI)
  have 2: "\<exists>r \<in> set (Coding_tbl (view (snd (importCodeSystem ex_cs (Some ?xy) None ?d)))).
      cr_code r = ''A'' \<and> cr_display r = Some ''y''"
    by (rule bexI [where x = ?row and P = "\<lambda>r. cr_code r = ''A'' \<and> cr_display r = Some ''y''",
          OF both mem])
  from t1 2 show ?thesis by (rule conjI)
qed

end
